theory Spec2Isabelle
  imports Complex_Main
begin

section \<open>The pause store (pause-toggle-store)\<close>

text \<open>
  The React provider keeps one \<open>PauseState\<close> object and changes it only through
  \<open>setPauseState\<close> with an updater function of the previous state. The backend
  (the commands \<open>get_pause_state\<close>, \<open>toggle_global_pause\<close>, \<open>set_pause_state\<close>)
  is reached through \<open>invoke\<close>, whose promise either resolves with a value or
  rejects: the outcome of a call is a value of \<open>string + 'a\<close>, \<open>Inl\<close> carrying the
  rejection. \<open>new Date().toISOString()\<close> is the parameter \<open>now\<close>.
\<close>

datatype PauseReason = PR_user | PR_secure_input | PR_both | PR_none

record PauseState =
  isPaused :: bool
  pauseReason :: PauseReason
  canResume :: bool
  pauseTimestamp :: "string option"

record PauseStateInfo =
  is_paused :: bool
  paused_by_user :: bool
  paused_by_secure_input :: bool
  pause_timestamp :: "string option"
  can_resume :: bool

definition mapPauseReason :: "bool \<Rightarrow> bool \<Rightarrow> PauseReason" where
  "mapPauseReason pausedByUser pausedBySecureInput =
     (if pausedByUser \<and> pausedBySecureInput then PR_both
      else if pausedByUser then PR_user
      else if pausedBySecureInput then PR_secure_input
      else PR_none)"

text \<open>The argument of \<open>useState\<close>: the state the provider starts with.\<close>

definition initialPauseState :: PauseState where
  "initialPauseState =
     \<lparr>isPaused = False, pauseReason = PR_none, canResume = True, pauseTimestamp = None\<rparr>"

text \<open>A \<open>throw\<close> of the JavaScript run time is a value of \<open>js_error\<close>.\<close>

datatype js_error = TypeError

text \<open>
  The store: the presented state, the lines written with \<open>console.error\<close> (the
  \<open>console.warn\<close> of a slow toggle depends on the clock and is left out), and the
  exceptions thrown by a state updater. React runs an updater when it renders, after
  \<open>setPauseState\<close> has returned, so such an exception is raised outside every
  \<open>try\<close> of the store: no \<open>catch\<close> of the store sees it and nothing is logged for it.
\<close>

record Store =
  presented :: PauseState
  errors :: "string list"
  uncaught :: "js_error list"

definition initialStore :: Store where
  "initialStore = \<lparr>presented = initialPauseState, errors = [], uncaught = []\<rparr>"

text \<open>
  \<open>setPauseState(updater)\<close>: the updater is applied to the previous state; when it
  throws, the state stays and the exception is uncaught.
\<close>

definition setPauseState :: "(PauseState \<Rightarrow> js_error + PauseState) \<Rightarrow> Store \<Rightarrow> Store" where
  "setPauseState updater st =
     (case updater (presented st) of
        Inr newState \<Rightarrow> st\<lparr>presented := newState\<rparr>
      | Inl err \<Rightarrow> st\<lparr>uncaught := uncaught st @ [err]\<rparr>)"

definition console_error :: "string \<Rightarrow> string \<Rightarrow> Store \<Rightarrow> Store" where
  "console_error msg err st = st\<lparr>errors := errors st @ [msg @ '' '' @ err]\<rparr>"

text \<open>How an async function of the store ends: its promise resolves or rejects.\<close>

datatype settled = Resolved | Rejected string

text \<open>
  The updater that \<open>refreshPauseState\<close> hands to \<open>setPauseState\<close>. The value the
  call resolved with is \<open>Some\<close> state, or \<open>None\<close> when it is \<open>null\<close> or
  \<open>undefined\<close>, no readable state: then reading \<open>stateInfo.is_paused\<close> throws.
\<close>

definition refresh_updater :: "PauseStateInfo option \<Rightarrow> PauseState \<Rightarrow> js_error + PauseState" where
  "refresh_updater resolved prev =
     (case resolved of
        None \<Rightarrow> Inl TypeError
      | Some stateInfo \<Rightarrow>
          Inr (let newState =
                     \<lparr>isPaused = is_paused stateInfo,
                      pauseReason =
                        mapPauseReason (paused_by_user stateInfo)
                          (paused_by_secure_input stateInfo),
                      canResume = can_resume stateInfo,
                      pauseTimestamp = pause_timestamp stateInfo\<rparr>
               in if isPaused prev = isPaused newState \<and>
                     pauseReason prev = pauseReason newState \<and>
                     canResume prev = canResume newState
                  then prev
                  else newState))"

text \<open>
  \<open>refreshPauseState\<close>: the whole body stands in \<open>try\<close>, the \<open>catch\<close> logs, so
  the promise always resolves. The first argument is the outcome of
  \<open>invoke('get_pause_state')\<close>: a rejection, or the value it resolved with.
\<close>

definition refreshPauseState ::
  "string + PauseStateInfo option \<Rightarrow> Store \<Rightarrow> settled \<times> Store" where
  "refreshPauseState got st =
     (case got of
        Inr stateInfo \<Rightarrow> (Resolved, setPauseState (refresh_updater stateInfo) st)
      | Inl error \<Rightarrow>
          (Resolved, console_error ''Failed to refresh pause state:'' error st))"

text \<open>The mount effect: the provider starts from the initial state and refreshes once.\<close>

definition mount :: "string + PauseStateInfo option \<Rightarrow> settled \<times> Store" where
  "mount got = refreshPauseState got initialStore"

text \<open>
  \<open>togglePause\<close>: \<open>toggled\<close> is the outcome of \<open>invoke('toggle_global_pause')\<close>,
  \<open>got\<close> the outcome of the refresh the \<open>catch\<close> branch starts.
\<close>

definition togglePause ::
  "string + bool \<Rightarrow> string \<Rightarrow> string + PauseStateInfo option \<Rightarrow> Store \<Rightarrow> Store" where
  "togglePause toggled now got st =
     (case toggled of
        Inr newState \<Rightarrow>
          st\<lparr>presented := (presented st)
               \<lparr>isPaused := newState,
                pauseReason := (if newState then PR_user else PR_none),
                canResume := True,
                pauseTimestamp := (if newState then Some now else None)\<rparr>\<rparr>
      | Inl error \<Rightarrow>
          snd (refreshPauseState got (console_error ''Failed to toggle pause:'' error st)))"

text \<open>
  \<open>pauseExpansions\<close>: \<open>done\<close> is the outcome of
  \<open>invoke('set_pause_state', {paused: true, byUser: true})\<close>.
\<close>

definition pauseExpansions ::
  "string + unit \<Rightarrow> string \<Rightarrow> string + PauseStateInfo option \<Rightarrow> Store \<Rightarrow> Store" where
  "pauseExpansions done now got st =
     (case done of
        Inr _ \<Rightarrow>
          st\<lparr>presented := (presented st)
               \<lparr>isPaused := True,
                pauseReason :=
                  (if pauseReason (presented st) = PR_secure_input then PR_both else PR_user),
                canResume := True,
                pauseTimestamp := Some now\<rparr>\<rparr>
      | Inl error \<Rightarrow>
          snd (refreshPauseState got (console_error ''Failed to pause expansions:'' error st)))"

text \<open>
  \<open>resumeExpansions\<close>: \<open>done\<close> is the outcome of
  \<open>invoke('set_pause_state', {paused: false, byUser: true})\<close>; both branches refresh.
\<close>

definition resumeExpansions ::
  "string + unit \<Rightarrow> string + PauseStateInfo option \<Rightarrow> Store \<Rightarrow> Store" where
  "resumeExpansions done got st =
     (case done of
        Inr _ \<Rightarrow> snd (refreshPauseState got st)
      | Inl error \<Rightarrow>
          snd (refreshPauseState got (console_error ''Failed to resume expansions:'' error st)))"

text \<open>
  The handler of the \<open>secure-input-detected\<close> event: \<open>done\<close> is the outcome of
  \<open>invoke('set_pause_state', {paused: detected, byUser: false})\<close>; the refresh runs in
  \<open>then\<close>, the \<open>catch\<close> only logs.
\<close>

definition onSecureInputDetected ::
  "string + unit \<Rightarrow> string + PauseStateInfo option \<Rightarrow> Store \<Rightarrow> Store" where
  "onSecureInputDetected done got st =
     (case done of
        Inr _ \<Rightarrow> snd (refreshPauseState got st)
      | Inl error \<Rightarrow> console_error ''Failed to handle secure input detection:'' error st)"

subsection \<open>The backend the store talks to\<close>

text \<open>
  Modelled from the spec: the Pause Coordinator. The Rust engine behind the three
  commands is not part of the TypeScript front end. It owns the two flags; \<open>setUserPause\<close> and
  \<open>setSecureInputPause\<close> each write their own flag only, \<open>togglePause\<close> flips the
  user's flag and answers the effective state, and the effective state is recomputed
  from the flags (permission is taken as granted). What the spec leaves open in
  \<open>getPauseState\<close>, the value of \<open>canResume\<close>, is the parameter \<open>cr\<close>.
\<close>

record Coordinator =
  pausedByUser :: bool
  pausedBySecureInput :: bool
  pausedAt :: "string option"

definition effectivePaused :: "Coordinator \<Rightarrow> bool" where
  "effectivePaused c = (pausedByUser c \<or> pausedBySecureInput c)"

definition initialCoordinator :: Coordinator where
  "initialCoordinator = \<lparr>pausedByUser = False, pausedBySecureInput = False, pausedAt = None\<rparr>"

definition setUserPause :: "bool \<Rightarrow> string \<Rightarrow> Coordinator \<Rightarrow> Coordinator" where
  "setUserPause b now c = c\<lparr>pausedByUser := b, pausedAt := (if b then Some now else None)\<rparr>"

definition setSecureInputPause :: "bool \<Rightarrow> Coordinator \<Rightarrow> Coordinator" where
  "setSecureInputPause b c = c\<lparr>pausedBySecureInput := b\<rparr>"

definition toggle_global_pause :: "string \<Rightarrow> Coordinator \<Rightarrow> bool \<times> Coordinator" where
  "toggle_global_pause now c =
     (let c' = setUserPause (\<not> pausedByUser c) now c in (effectivePaused c', c'))"

definition set_pause_state :: "bool \<Rightarrow> bool \<Rightarrow> string \<Rightarrow> Coordinator \<Rightarrow> Coordinator" where
  "set_pause_state paused byUser now c =
     (if byUser then setUserPause paused now c else setSecureInputPause paused c)"

definition get_pause_state :: "(Coordinator \<Rightarrow> bool) \<Rightarrow> Coordinator \<Rightarrow> PauseStateInfo" where
  "get_pause_state cr c =
     \<lparr>is_paused = effectivePaused c,
      paused_by_user = pausedByUser c,
      paused_by_secure_input = pausedBySecureInput c,
      pause_timestamp = pausedAt c,
      can_resume = cr c\<rparr>"

text \<open>
  The updates that reach the store through its interface, and the store running against
  the coordinator: each update calls the backend command the source calls, which
  resolves with a state, and hands the answer to the store's function.
\<close>

datatype PauseUpdate =
  TogglePause string
  | PauseExpansions string
  | ResumeExpansions string
  | SecureInputDetected bool

fun apply_update ::
  "(Coordinator \<Rightarrow> bool) \<Rightarrow> Coordinator \<times> Store \<Rightarrow> PauseUpdate \<Rightarrow> Coordinator \<times> Store" where
  "apply_update cr (c, st) (TogglePause now) =
     (let (newState, c') = toggle_global_pause now c
      in (c', togglePause (Inr newState) now (Inr (Some (get_pause_state cr c'))) st))"
| "apply_update cr (c, st) (PauseExpansions now) =
     (let c' = set_pause_state True True now c
      in (c', pauseExpansions (Inr ()) now (Inr (Some (get_pause_state cr c'))) st))"
| "apply_update cr (c, st) (ResumeExpansions now) =
     (let c' = set_pause_state False True now c
      in (c', resumeExpansions (Inr ()) (Inr (Some (get_pause_state cr c'))) st))"
| "apply_update cr (c, st) (SecureInputDetected detected) =
     (let c' = set_pause_state detected False [] c
      in (c', onSecureInputDetected (Inr ()) (Inr (Some (get_pause_state cr c'))) st))"

definition run_updates ::
  "(Coordinator \<Rightarrow> bool) \<Rightarrow> PauseUpdate list \<Rightarrow> Coordinator \<times> Store" where
  "run_updates cr us = foldl (apply_update cr) (initialCoordinator, initialStore) us"

subsection \<open>Theorems about the pause store\<close>

text \<open>
  C6. For every pair of flags, \<open>mapPauseReason\<close> answers 'both' exactly when both are
  true, 'user' exactly when only the user's flag is true, 'secure-input' exactly when
  only the secure-input flag is true, and 'none' exactly when both are false: the
  presented reason is a function of the two flags alone.
\<close>

theorem mapPauseReason_table:
  "(mapPauseReason u s = PR_both) = (u \<and> s) \<and>
   (mapPauseReason u s = PR_user) = (u \<and> \<not> s) \<and>
   (mapPauseReason u s = PR_secure_input) = (\<not> u \<and> s) \<and>
   (mapPauseReason u s = PR_none) = (\<not> u \<and> \<not> s)"
  by (simp add: mapPauseReason_def)

text \<open>
  C7, as stated, fails for a state that cannot be read. When \<open>get_pause_state\<close>
  resolves with \<open>null\<close>, the \<open>try\<close> of \<open>refreshPauseState\<close> ends without an
  error, the updater throws a TypeError when React runs it, and the store has logged
  nothing: the failure is neither logged nor kept from spreading.
\<close>

theorem mount_unreadable_state_counterexample:
  "fst (mount (Inr None)) = Resolved \<and>
   errors (snd (mount (Inr None))) = [] \<and>
   uncaught (snd (mount (Inr None))) = [TypeError]"
  by (simp add: mount_def refreshPauseState_def setPauseState_def refresh_updater_def
      initialStore_def)

text \<open>
  C7, amended. When \<open>get_pause_state\<close> rejects, the store that has just been mounted
  stays in the not-paused default (isPaused false, pauseReason 'none', canResume true),
  the failure is logged, the refresh itself resolves (the error is not passed on) and
  nothing is left uncaught, and the store goes on working: a later refresh that resolves
  with a state is applied to the default state. A rejected refresh never changes the
  presented state.
\<close>

theorem mount_load_failure_defaults:
  "fst (mount (Inl e)) = Resolved \<and>
   presented (snd (mount (Inl e))) =
     \<lparr>isPaused = False, pauseReason = PR_none, canResume = True, pauseTimestamp = None\<rparr> \<and>
   errors (snd (mount (Inl e))) = [''Failed to refresh pause state: '' @ e] \<and>
   uncaught (snd (mount (Inl e))) = [] \<and>
   refresh_updater (Some info) initialPauseState =
     Inr (presented (snd (refreshPauseState (Inr (Some info)) (snd (mount (Inl e)))))) \<and>
   fst (refreshPauseState (Inl e) st) = Resolved \<and>
   presented (snd (refreshPauseState (Inl e) st)) = presented st \<and>
   uncaught (snd (refreshPauseState (Inl e) st)) = uncaught st"
  by (simp add: mount_def refreshPauseState_def setPauseState_def refresh_updater_def
      console_error_def initialStore_def initialPauseState_def Let_def)

text \<open>
  C8. A refresh whose fetched state maps to the presented isPaused, pauseReason and
  canResume returns the existing state as it is (its timestamp included); in every other
  case it presents the mapped state. So the state changes only when one of the three
  mapped fields differs.
\<close>

theorem refreshPauseState_skips_unchanged:
  "presented (snd (refreshPauseState (Inr (Some info)) st)) =
     (if isPaused (presented st) = is_paused info \<and>
         pauseReason (presented st) =
           mapPauseReason (paused_by_user info) (paused_by_secure_input info) \<and>
         canResume (presented st) = can_resume info
      then presented st
      else \<lparr>isPaused = is_paused info,
            pauseReason = mapPauseReason (paused_by_user info) (paused_by_secure_input info),
            canResume = can_resume info,
            pauseTimestamp = pause_timestamp info\<rparr>) \<and>
   errors (snd (refreshPauseState (Inr (Some info)) st)) = errors st"
  by (simp add: refreshPauseState_def setPauseState_def refresh_updater_def Let_def)

text \<open>
  The presented isPaused follows the coordinator for every sequence of updates: it is
  the disjunction of the two flags.
\<close>

lemma apply_update_isPaused:
  assumes "isPaused (presented st) = effectivePaused c"
  shows "isPaused (presented (snd (apply_update cr (c, st) u))) =
         effectivePaused (fst (apply_update cr (c, st) u))"
  using assms
  by (cases u)
    (auto simp: toggle_global_pause_def togglePause_def pauseExpansions_def
      resumeExpansions_def onSecureInputDetected_def refreshPauseState_def
      setPauseState_def refresh_updater_def get_pause_state_def set_pause_state_def setUserPause_def
      setSecureInputPause_def effectivePaused_def Let_def)

lemma foldl_apply_update_isPaused:
  "isPaused (presented (snd w)) = effectivePaused (fst w) \<Longrightarrow>
   isPaused (presented (snd (foldl (apply_update cr) w us))) =
   effectivePaused (fst (foldl (apply_update cr) w us))"
proof (induction us arbitrary: w)
  case Nil
  then show ?case by simp
next
  case (Cons u us)
  obtain c st where w: "w = (c, st)" by (cases w)
  from Cons.prems w have "isPaused (presented st) = effectivePaused c" by simp
  then have "isPaused (presented (snd (apply_update cr w u))) =
             effectivePaused (fst (apply_update cr w u))"
    unfolding w by (rule apply_update_isPaused)
  then show ?case using Cons.IH by simp
qed

lemma run_updates_isPaused:
  "isPaused (presented (snd (run_updates cr us))) =
   (pausedByUser (fst (run_updates cr us)) \<or> pausedBySecureInput (fst (run_updates cr us)))"
proof -
  have "isPaused (presented (snd (initialCoordinator, initialStore))) =
        effectivePaused (fst (initialCoordinator, initialStore))"
    by (simp add: initialCoordinator_def initialStore_def initialPauseState_def
        effectivePaused_def)
  then show ?thesis
    unfolding run_updates_def
    by (metis foldl_apply_update_isPaused effectivePaused_def)
qed

text \<open>
  C1. The presented reason does not follow the flags. After secure input is detected
  and the user then toggles the pause, both flags are set and the store is paused, but
  \<open>togglePause\<close> writes the reason 'user' where the flags give 'both': the secure-input
  source has lost its part in the presented reason. \<open>pauseExpansions\<close> keeps it once
  ('secure-input' becomes 'both') and loses it when called again.
\<close>

theorem togglePause_forgets_secure_input:
  "pausedByUser (fst (run_updates cr [SecureInputDetected True, TogglePause now])) \<and>
   pausedBySecureInput (fst (run_updates cr [SecureInputDetected True, TogglePause now])) \<and>
   isPaused (presented (snd (run_updates cr [SecureInputDetected True, TogglePause now]))) \<and>
   pauseReason (presented (snd (run_updates cr [SecureInputDetected True, TogglePause now])))
     = PR_user \<and>
   mapPauseReason True True = PR_both \<and>
   pauseReason (presented (snd (run_updates cr
       [SecureInputDetected True, PauseExpansions now]))) = PR_both \<and>
   pauseReason (presented (snd (run_updates cr
       [SecureInputDetected True, PauseExpansions now, PauseExpansions now]))) = PR_user"
  by (simp add: run_updates_def toggle_global_pause_def togglePause_def pauseExpansions_def
      onSecureInputDetected_def refreshPauseState_def setPauseState_def refresh_updater_def
      get_pause_state_def set_pause_state_def setUserPause_def setSecureInputPause_def
      effectivePaused_def initialCoordinator_def initialStore_def initialPauseState_def
      mapPauseReason_def Let_def)

section \<open>Rule validation (lib/validation.ts)\<close>

text \<open>
  A JavaScript string is modelled as a list of 8-bit characters, read as the code
  units U+0000 to U+00FF; \<open>length\<close> counts them as \<open>.length\<close> does.
  \<open>validateRule\<close> takes a \<open>Pick\<close> of a rule (its command and replacement text): the
  record \<open>RuleInput\<close>, which \<open>ExpansionRule\<close> extends.
\<close>

record RuleInput =
  command :: string
  replacementText :: string

record ExpansionRule = RuleInput +
  rule_id :: string
  createdAt :: string
  updatedAt :: string

datatype field_name = F_command | F_replacementText

record ValidationError =
  field :: field_name
  message :: string

text \<open>\<open>String.prototype.toLowerCase\<close> on the code units U+0000 to U+00FF.\<close>

definition toLowerCase_char :: "char \<Rightarrow> char" where
  "toLowerCase_char c =
     (let n = (of_char c :: nat)
      in if (65 \<le> n \<and> n \<le> 90) \<or> (192 \<le> n \<and> n \<le> 222 \<and> n \<noteq> 215)
         then char_of (n + 32) else c)"

definition toLowerCase :: "string \<Rightarrow> string" where
  "toLowerCase s = map toLowerCase_char s"

definition startsWith :: "string \<Rightarrow> string \<Rightarrow> bool" where
  "startsWith s p = (take (length p) s = p)"

text \<open>The character class \<open>[A-Za-z0-9_]\<close>.\<close>

definition is_word_char :: "char \<Rightarrow> bool" where
  "is_word_char c =
     (let n = (of_char c :: nat)
      in (65 \<le> n \<and> n \<le> 90) \<or> (97 \<le> n \<and> n \<le> 122) \<or> (48 \<le> n \<and> n \<le> 57) \<or> n = 95)"

text \<open>\<open>/^\.[A-Za-z0-9_]+$/.test(s)\<close>: a period, then one or more class characters, then the end.\<close>

fun test_period_word :: "string \<Rightarrow> bool" where
  "test_period_word [] = False"
| "test_period_word (c # cs) = (c = CHR ''.'' \<and> cs \<noteq> [] \<and> list_all is_word_char cs)"

text \<open>\<open>/__/.test(s)\<close>: two underscores in a row somewhere in \<open>s\<close>.\<close>

fun test_double_underscore :: "string \<Rightarrow> bool" where
  "test_double_underscore (a # b # cs) =
     ((a = CHR ''_'' \<and> b = CHR ''_'') \<or> test_double_underscore (b # cs))"
| "test_double_underscore _ = False"

text \<open>\<open>/^\._|_$/.test(s)\<close>: \<open>s\<close> begins with \<open>._\<close>, or \<open>s\<close> ends with an underscore.\<close>

definition test_edge_underscore :: "string \<Rightarrow> bool" where
  "test_edge_underscore s = (take 2 s = ''._'' \<or> (s \<noteq> [] \<and> last s = CHR ''_''))"

definition RESERVED :: "string list" where
  "RESERVED = [''.help'', ''.settings'', ''.about'', ''.quit'', ''.exit'', ''.version'', ''.info'']"

text \<open>\<open>s.split("\n")\<close>: the pieces between the newlines, one more than there are newlines.\<close>

fun split_newline :: "string \<Rightarrow> string list" where
  "split_newline [] = [[]]"
| "split_newline (c # cs) =
     (if c = CHR 0x0A then [] # split_newline cs
      else (c # hd (split_newline cs)) # tl (split_newline cs))"

definition err :: "field_name \<Rightarrow> string \<Rightarrow> ValidationError" where
  "err f m = \<lparr>field = f, message = m\<rparr>"

text \<open>
  \<open>validateRule\<close>: each \<open>if\<close> of the source pushes one error; the result is the errors
  in the order of the checks. \<open>selfId\<close> is optional: \<open>None\<close> is \<open>undefined\<close>, which no
  rule's id equals.
\<close>

definition validateRule ::
  "'a RuleInput_scheme \<Rightarrow> ExpansionRule list \<Rightarrow> string option \<Rightarrow> ValidationError list" where
  "validateRule rule existing selfId =
     (let cmd = command rule;
          text = replacementText rule;
          lower = toLowerCase cmd;
          duplicate =
            find (\<lambda>r. Some (rule_id r) \<noteq> selfId \<and> toLowerCase (command r) = lower) existing
      in (if \<not> startsWith cmd ''.'' then [err F_command ''Must start with a period (.)''] else []) @
         (if length cmd \<le> 4 then [err F_command ''Must be longer than 4 characters''] else []) @
         (if \<not> test_period_word cmd
          then [err F_command ''Only letters, numbers, and underscores after the period'']
          else []) @
         (if length cmd > 50 then [err F_command ''Maximum length is 50 characters''] else []) @
         (if test_double_underscore cmd then [err F_command ''No consecutive underscores''] else []) @
         (if test_edge_underscore cmd
          then [err F_command ''No leading or trailing underscore after the period'']
          else []) @
         (if toLowerCase cmd \<in> set RESERVED then [err F_command ''This command is reserved''] else []) @
         (if duplicate \<noteq> None then [err F_command ''Must be unique''] else []) @
         (if text = [] then [err F_replacementText ''Replacement text cannot be empty''] else []) @
         (if length text > 10000
          then [err F_replacementText ''Maximum length is 10,000 characters'']
          else []) @
         (if length (split_newline text) > 100
          then [err F_replacementText ''Maximum 100 lines'']
          else []))"

definition errors_of :: "field_name \<Rightarrow> ValidationError list \<Rightarrow> ValidationError list" where
  "errors_of f es = filter (\<lambda>e. field e = f) es"

subsection \<open>Theorems about validation\<close>

lemma is_word_char_alphabet:
  "is_word_char c \<longleftrightarrow>
   c \<in> set (''ABCDEFGHIJKLMNOPQRSTUVWXYZ'' @ ''abcdefghijklmnopqrstuvwxyz'' @
            ''0123456789'' @ ''_'')"
  by (cases c) (simp add: is_word_char_def)

lemma test_double_underscore_iff:
  "test_double_underscore s \<longleftrightarrow>
   (\<exists>i. Suc i < length s \<and> s ! i = CHR ''_'' \<and> s ! Suc i = CHR ''_'')"
proof (induction s rule: test_double_underscore.induct)
  case (1 a b cs)
  show ?case
  proof
    assume "test_double_underscore (a # b # cs)"
    then consider "a = CHR ''_'' \<and> b = CHR ''_''" | "test_double_underscore (b # cs)"
      by auto
    then show "\<exists>i. Suc i < length (a # b # cs) \<and> (a # b # cs) ! i = CHR ''_'' \<and>
                   (a # b # cs) ! Suc i = CHR ''_''"
    proof cases
      case 1
      then show ?thesis by (intro exI[of _ 0]) simp
    next
      case 2
      with "1.IH" obtain i where "Suc i < length (b # cs)" "(b # cs) ! i = CHR ''_''"
        "(b # cs) ! Suc i = CHR ''_''" by blast
      then show ?thesis by (intro exI[of _ "Suc i"]) simp
    qed
  next
    assume "\<exists>i. Suc i < length (a # b # cs) \<and> (a # b # cs) ! i = CHR ''_'' \<and>
                (a # b # cs) ! Suc i = CHR ''_''"
    then obtain i where i: "Suc i < length (a # b # cs)" "(a # b # cs) ! i = CHR ''_''"
      "(a # b # cs) ! Suc i = CHR ''_''" by blast
    show "test_double_underscore (a # b # cs)"
    proof (cases i)
      case 0
      with i show ?thesis by simp
    next
      case (Suc j)
      with i have "Suc j < length (b # cs) \<and> (b # cs) ! j = CHR ''_'' \<and>
                   (b # cs) ! Suc j = CHR ''_''" by simp
      with "1.IH" show ?thesis by auto
    qed
  qed
qed simp_all

lemma test_edge_underscore_iff:
  "test_edge_underscore s \<longleftrightarrow> (\<exists>r. s = ''._'' @ r) \<or> (\<exists>i. s = i @ ''_'')"
proof -
  have a: "take 2 s = ''._'' \<longleftrightarrow> (\<exists>r. s = ''._'' @ r)"
  proof
    assume "take 2 s = ''._''"
    then have "s = ''._'' @ drop 2 s" by (metis append_take_drop_id)
    then show "\<exists>r. s = ''._'' @ r" ..
  next
    assume "\<exists>r. s = ''._'' @ r"
    then show "take 2 s = ''._''" by auto
  qed
  have b: "(s \<noteq> [] \<and> last s = CHR ''_'') \<longleftrightarrow> (\<exists>i. s = i @ ''_'')"
  proof
    assume "s \<noteq> [] \<and> last s = CHR ''_''"
    then have "s = butlast s @ ''_''" by (metis append_butlast_last_id)
    then show "\<exists>i. s = i @ ''_''" ..
  next
    assume "\<exists>i. s = i @ ''_''"
    then show "s \<noteq> [] \<and> last s = CHR ''_''" by auto
  qed
  show ?thesis unfolding test_edge_underscore_def a b ..
qed

lemma split_newline_nonempty: "split_newline s \<noteq> []"
  by (induction s) auto

lemma length_split_newline: "length (split_newline s) = Suc (count_list s (CHR 0x0A))"
proof (induction s)
  case Nil
  show ?case by simp
next
  case (Cons c cs)
  have "length (tl (split_newline cs)) = length (split_newline cs) - 1" by simp
  with split_newline_nonempty[of cs] Cons show ?case
    by (cases "split_newline cs") auto
qed

lemma errors_of_append: "errors_of f (xs @ ys) = errors_of f xs @ errors_of f ys"
  by (simp add: errors_of_def)

lemma errors_of_if:
  "errors_of f (if b then [err g m] else []) = (if b \<and> g = f then [err g m] else [])"
  by (simp add: errors_of_def err_def)

lemma find_not_None: "find P xs \<noteq> None \<longleftrightarrow> (\<exists>x\<in>set xs. P x)"
  by (auto simp: find_None_iff)

text \<open>
  C3. \<open>validateRule\<close> reports no error on the command field exactly when the command
  starts with a period, is 5 to 50 characters long, has only letters, digits and
  underscores after the period, has no two underscores in a row, has no underscore right
  after the period and none at its end, is not a reserved word (compared in lower case),
  and no existing rule with another id has the same command in lower case.
\<close>

theorem validateRule_command_errors:
  "errors_of F_command (validateRule rule existing selfId) = [] \<longleftrightarrow>
     (\<exists>rest. command rule = CHR ''.'' # rest) \<and>
     5 \<le> length (command rule) \<and> length (command rule) \<le> 50 \<and>
     set (tl (command rule)) \<subseteq>
       set (''ABCDEFGHIJKLMNOPQRSTUVWXYZ'' @ ''abcdefghijklmnopqrstuvwxyz'' @
            ''0123456789'' @ ''_'') \<and>
     \<not> (\<exists>i. Suc i < length (command rule) \<and> command rule ! i = CHR ''_'' \<and>
            command rule ! Suc i = CHR ''_'') \<and>
     \<not> (\<exists>rest. command rule = ''._'' @ rest) \<and>
     \<not> (\<exists>init. command rule = init @ ''_'') \<and>
     toLowerCase (command rule) \<notin>
       {''.help'', ''.settings'', ''.about'', ''.quit'', ''.exit'', ''.version'', ''.info''} \<and>
     \<not> (\<exists>r\<in>set existing. Some (rule_id r) \<noteq> selfId \<and>
            toLowerCase (command r) = toLowerCase (command rule))"
proof -
  let ?c = "command rule"
  have start: "startsWith ?c ''.'' \<longleftrightarrow> (\<exists>rest. ?c = CHR ''.'' # rest)"
    by (cases ?c) (auto simp: startsWith_def)
  have shape: "test_period_word ?c \<longleftrightarrow>
      (\<exists>rest. ?c = CHR ''.'' # rest) \<and> 2 \<le> length ?c \<and>
      set (tl ?c) \<subseteq> set (''ABCDEFGHIJKLMNOPQRSTUVWXYZ'' @ ''abcdefghijklmnopqrstuvwxyz'' @
            ''0123456789'' @ ''_'')"
  proof (cases ?c)
    case Nil
    then show ?thesis by simp
  next
    case (Cons a as)
    have "list_all is_word_char as \<longleftrightarrow>
          set as \<subseteq> set (''ABCDEFGHIJKLMNOPQRSTUVWXYZ'' @ ''abcdefghijklmnopqrstuvwxyz'' @
            ''0123456789'' @ ''_'')"
      unfolding list_all_iff subset_iff is_word_char_alphabet by blast
    moreover have "as \<noteq> [] \<longleftrightarrow> 2 \<le> length (a # as)" by (cases as) auto
    ultimately show ?thesis using Cons by auto
  qed
  have errs: "errors_of F_command (validateRule rule existing selfId) = [] \<longleftrightarrow>
      startsWith ?c ''.'' \<and> \<not> length ?c \<le> 4 \<and> test_period_word ?c \<and> \<not> length ?c > 50 \<and>
      \<not> test_double_underscore ?c \<and> \<not> test_edge_underscore ?c \<and>
      toLowerCase ?c \<notin> set RESERVED \<and>
      \<not> (\<exists>r\<in>set existing. Some (rule_id r) \<noteq> selfId \<and>
            toLowerCase (command r) = toLowerCase ?c)"
    unfolding validateRule_def Let_def errors_of_append errors_of_if find_not_None
    by auto
  show ?thesis
    unfolding errs start shape test_double_underscore_iff test_edge_underscore_iff RESERVED_def
    by auto
qed

text \<open>
  The theorem at a rule that is being edited: \<open>.hello\<close> against its own entry
  \<open>.Hello\<close> is accepted, and against the same entry as a new rule it is a duplicate.
\<close>

theorem validateRule_command_errors_witness:
  "errors_of F_command
     (validateRule \<lparr>command = ''.hello'', replacementText = ''Hi''\<rparr>
        [\<lparr>command = ''.Hello'', replacementText = ''Hi'', rule_id = ''1'',
          createdAt = ''t0'', updatedAt = ''t0''\<rparr>] (Some ''1'')) = [] \<and>
   5 \<le> length ''.hello'' \<and> length ''.hello'' \<le> 50 \<and>
   toLowerCase ''.hello'' \<notin>
     {''.help'', ''.settings'', ''.about'', ''.quit'', ''.exit'', ''.version'', ''.info''} \<and>
   errors_of F_command
     (validateRule \<lparr>command = ''.hello'', replacementText = ''Hi''\<rparr>
        [\<lparr>command = ''.Hello'', replacementText = ''Hi'', rule_id = ''1'',
          createdAt = ''t0'', updatedAt = ''t0''\<rparr>] None) \<noteq> []"
proof -
  let ?r = "\<lparr>command = ''.hello'', replacementText = ''Hi''\<rparr>"
  let ?e = "[\<lparr>command = ''.Hello'', replacementText = ''Hi'', rule_id = ''1'',
          createdAt = ''t0'', updatedAt = ''t0''\<rparr>]"
  have lower: "toLowerCase ''.Hello'' = ''.hello''" "toLowerCase ''.hello'' = ''.hello''"
    by code_simp+
  have none: "errors_of F_command (validateRule ?r ?e (Some ''1'')) = []"
    by code_simp
  have dup: "\<exists>r\<in>set ?e. Some (rule_id r) \<noteq> None \<and>
               toLowerCase (command r) = toLowerCase (command ?r)"
    by (simp add: lower)
  from validateRule_command_errors[of ?r ?e "Some ''1''"] none
  have "5 \<le> length ''.hello'' \<and> length ''.hello'' \<le> 50 \<and>
        toLowerCase ''.hello'' \<notin>
          {''.help'', ''.settings'', ''.about'', ''.quit'', ''.exit'', ''.version'', ''.info''}"
    by simp
  moreover from validateRule_command_errors[of ?r ?e None] dup
  have "errors_of F_command (validateRule ?r ?e None) \<noteq> []"
    by blast
  ultimately show ?thesis using none by simp
qed

lemma count_list_replicate_same: "count_list (replicate n x) x = n"
  by (induction n) auto

text \<open>
  C4. \<open>validateRule\<close> reports no error on the replacement text exactly when the text
  is not empty, is at most 10,000 characters long and has at most 100 lines, a line being
  a piece between newlines (one more than the number of newline characters).
\<close>

theorem validateRule_replacementText_errors:
  "errors_of F_replacementText (validateRule rule existing selfId) = [] \<longleftrightarrow>
     replacementText rule \<noteq> [] \<and>
     length (replacementText rule) \<le> 10000 \<and>
     Suc (count_list (replacementText rule) (CHR 0x0A)) \<le> 100"
  unfolding validateRule_def Let_def errors_of_append errors_of_if length_split_newline
  by auto

text \<open>Two lines pass; a hundred newlines make 101 lines and fail.\<close>

theorem validateRule_replacementText_errors_witness:
  "errors_of F_replacementText
     (validateRule \<lparr>command = ''.sig'', replacementText = [CHR ''a'', CHR 0x0A, CHR ''b'']\<rparr>
        [] None) = [] \<and>
   errors_of F_replacementText
     (validateRule \<lparr>command = ''.sig'', replacementText = replicate 100 (CHR 0x0A)\<rparr>
        [] None) \<noteq> []"
  using validateRule_replacementText_errors
          [of "\<lparr>command = ''.sig'', replacementText = [CHR ''a'', CHR 0x0A, CHR ''b'']\<rparr>"
              "[]" None]
        validateRule_replacementText_errors
          [of "\<lparr>command = ''.sig'', replacementText = replicate 100 (CHR 0x0A)\<rparr>" "[]" None]
  by (simp add: count_list_replicate_same)

section \<open>Command suggestions (lib/conflict-utils.ts)\<close>

text \<open>
  \<open>generateCommandSuggestions\<close> reads and writes the module's \<open>suggestionCache\<close>, a
  \<open>Map\<close> from cache keys to results: the cache is passed in and returned, as a list of
  entries in insertion order. A \<open>throw\<close> is the \<open>Inl\<close> of the result. The in-place
  \<open>sort\<close> of the caller's array is seen here only through the cache key.
\<close>

type_synonym suggestion_cache = "(string \<times> string list) list"

definition cache_has :: "suggestion_cache \<Rightarrow> string \<Rightarrow> bool" where
  "cache_has cache k = (map_of cache k \<noteq> None)"

definition cache_get :: "suggestion_cache \<Rightarrow> string \<Rightarrow> string list" where
  "cache_get cache k = (case map_of cache k of Some v \<Rightarrow> v | None \<Rightarrow> [])"

fun cache_set :: "string \<Rightarrow> string list \<Rightarrow> suggestion_cache \<Rightarrow> suggestion_cache" where
  "cache_set k v [] = [(k, v)]"
| "cache_set k v ((k', v') # rest) =
     (if k' = k then (k, v) # rest else (k', v') # cache_set k v rest)"

text \<open>
  \<open>Array.prototype.sort\<close> without a comparator orders strings by their code units;
  \<open>join\<close> puts the separator between the elements.
\<close>

fun code_unit_le :: "string \<Rightarrow> string \<Rightarrow> bool" where
  "code_unit_le [] _ = True"
| "code_unit_le (a # as) [] = False"
| "code_unit_le (a # as) (b # bs) =
     ((of_char a :: nat) < of_char b \<or> (a = b \<and> code_unit_le as bs))"

fun sort_insert :: "string \<Rightarrow> string list \<Rightarrow> string list" where
  "sort_insert x [] = [x]"
| "sort_insert x (y # ys) = (if code_unit_le x y then x # y # ys else y # sort_insert x ys)"

definition js_sort :: "string list \<Rightarrow> string list" where
  "js_sort xs = foldr sort_insert xs []"

fun join :: "string \<Rightarrow> string list \<Rightarrow> string" where
  "join sep [] = []"
| "join sep [x] = x"
| "join sep (x # y # ys) = x @ sep @ join sep (y # ys)"

text \<open>Template literals print a number in decimal.\<close>

function decimal :: "nat \<Rightarrow> string" where
  "decimal n =
     (if n < 10 then [char_of (48 + n)] else decimal (n div 10) @ [char_of (48 + n mod 10)])"
  by pat_completeness auto
termination
  by (relation "measure id") auto

declare decimal.simps [simp del]

text \<open>
  \<open>synonymMap[key]\<close> on the object literal: an own property gives its array; a key that
  names a property of \<open>Object.prototype\<close> gives that inherited value, which is truthy
  and not iterable; any other key gives \<open>undefined\<close>.
\<close>

datatype property = Own "string list" | Inherited | Undefined

definition synonymMap :: "(string \<times> string list) list" where
  "synonymMap =
     [(''sig'', [''signature'', ''sign'']),
      (''signature'', [''sig'', ''sign'']),
      (''meeting'', [''meet'', ''mtg'']),
      (''address'', [''addr'', ''location'']),
      (''phone'', [''tel'', ''mobile'']),
      (''email'', [''mail'', ''contact'']),
      (''thanks'', [''thx'', ''ty'']),
      (''regards'', [''rgds'', ''best''])]"

definition object_prototype_names :: "string list" where
  "object_prototype_names =
     [''constructor'', ''__proto__'', ''hasOwnProperty'', ''isPrototypeOf'',
      ''propertyIsEnumerable'', ''toLocaleString'', ''toString'', ''valueOf'',
      ''__defineGetter__'', ''__defineSetter__'', ''__lookupGetter__'', ''__lookupSetter__'']"

definition synonymMap_get :: "string \<Rightarrow> property" where
  "synonymMap_get key =
     (case map_of synonymMap key of
        Some v \<Rightarrow> Own v
      | None \<Rightarrow> if key \<in> set object_prototype_names then Inherited else Undefined)"

definition descriptiveSuffixes :: "string list" where
  "descriptiveSuffixes = [''_new'', ''_alt'', ''_work'', ''_personal'', ''_temp'']"

text \<open>The helper \<open>addSuggestion\<close>; \<open>existingSet\<close> holds the existing commands in lower case.\<close>

definition addSuggestion :: "string list \<Rightarrow> string list \<Rightarrow> string \<Rightarrow> string list" where
  "addSuggestion existingSet suggestions suggestion =
     (if toLowerCase suggestion \<notin> set existingSet \<and> length suggestions < 5 \<and>
         suggestion \<notin> set suggestions
      then suggestions @ [suggestion]
      else suggestions)"

text \<open>Strategy 4, the loop \<open>for (let i = 2; i <= 10 && suggestions.length < 5; i++)\<close>.\<close>

function numeric_suffixes :: "string list \<Rightarrow> string \<Rightarrow> nat \<Rightarrow> string list \<Rightarrow> string list" where
  "numeric_suffixes existingSet baseWithoutDot i suggestions =
     (if i \<le> 10 \<and> length suggestions < 5
      then numeric_suffixes existingSet baseWithoutDot (i + 1)
             (addSuggestion existingSet suggestions (''.'' @ baseWithoutDot @ decimal i))
      else suggestions)"
  by pat_completeness auto
termination
  by (relation "measure (\<lambda>(e, b, i, s). 11 - i)") auto

declare numeric_suffixes.simps [simp del]

text \<open>The four strategies, run when the synonyms are iterable.\<close>

definition strategies :: "string list \<Rightarrow> string \<Rightarrow> string list \<Rightarrow> string list" where
  "strategies existingSet baseWithoutDot synonyms =
     (let s1 = foldl (\<lambda>suggestions synonym.
                   let suggestion = ''.'' @ synonym
                   in if length suggestion \<ge> 4
                      then addSuggestion existingSet suggestions suggestion
                      else suggestions) [] synonyms;
          s2 = foldl (\<lambda>suggestions suffix.
                   addSuggestion existingSet suggestions (''.'' @ baseWithoutDot @ suffix))
                 s1 descriptiveSuffixes;
          s3 = (if length baseWithoutDot > 4
                then foldl (\<lambda>suggestions abbrev.
                       if length abbrev \<ge> 4
                       then addSuggestion existingSet suggestions abbrev
                       else suggestions)
                     s2 [''.'' @ take 3 baseWithoutDot, ''.'' @ take 4 baseWithoutDot]
                else s2)
      in numeric_suffixes existingSet baseWithoutDot 2 s3)"

definition generateCommandSuggestions ::
  "suggestion_cache \<Rightarrow> string \<Rightarrow> string list \<Rightarrow> (js_error + string list) \<times> suggestion_cache" where
  "generateCommandSuggestions cache baseCommand existingCommands =
     (if baseCommand = [] \<or> \<not> startsWith baseCommand ''.'' then (Inr [], cache)
      else
        let cacheKey = baseCommand @ '':'' @ join '','' (js_sort existingCommands)
        in if cache_has cache cacheKey then (Inr (cache_get cache cacheKey), cache)
           else
             let existingSet = map toLowerCase (js_sort existingCommands);
                 baseWithoutDot = drop 1 baseCommand
             in case synonymMap_get (toLowerCase baseWithoutDot) of
                  Inherited \<Rightarrow> (Inl TypeError, cache)
                | Own synonyms \<Rightarrow>
                    (let result = take 5 (strategies existingSet baseWithoutDot synonyms)
                     in (Inr result,
                         cache_set cacheKey result (if length cache > 100 then [] else cache)))
                | Undefined \<Rightarrow>
                    (let result = take 5 (strategies existingSet baseWithoutDot [])
                     in (Inr result,
                         cache_set cacheKey result (if length cache > 100 then [] else cache))))"

subsection \<open>Theorems about the suggestions\<close>

definition suggestions_ok :: "string list \<Rightarrow> string list \<Rightarrow> bool" where
  "suggestions_ok existingSet suggestions =
     (length suggestions \<le> 5 \<and> distinct suggestions \<and>
      list_all (\<lambda>s. startsWith s ''.'' \<and> toLowerCase s \<notin> set existingSet) suggestions)"

lemma suggestions_ok_Nil: "suggestions_ok E []"
  by (simp add: suggestions_ok_def)

lemma addSuggestion_ok:
  "suggestions_ok E s \<Longrightarrow> startsWith x ''.'' \<Longrightarrow> suggestions_ok E (addSuggestion E s x)"
  by (auto simp: suggestions_ok_def addSuggestion_def)

lemma startsWith_dot: "startsWith (''.'' @ s) ''.''"
  by (simp add: startsWith_def)

lemma foldl_ok:
  "suggestions_ok E s \<Longrightarrow>
   (\<And>s x. suggestions_ok E s \<Longrightarrow> suggestions_ok E (f s x)) \<Longrightarrow>
   suggestions_ok E (foldl f s xs)"
  by (induction xs arbitrary: s) auto

lemma if_ok:
  "(c \<Longrightarrow> suggestions_ok E a) \<Longrightarrow> (\<not> c \<Longrightarrow> suggestions_ok E b) \<Longrightarrow>
   suggestions_ok E (if c then a else b)"
  by simp

lemma numeric_suffixes_ok:
  "suggestions_ok E s \<Longrightarrow> suggestions_ok E (numeric_suffixes E b i s)"
proof (induction E b i s rule: numeric_suffixes.induct)
  case (1 E b i s)
  show ?case
  proof (cases "i \<le> 10 \<and> length s < 5")
    case True
    have "suggestions_ok E (addSuggestion E s (''.'' @ b @ decimal i))"
      using "1.prems" by (rule addSuggestion_ok) (rule startsWith_dot)
    with True have "suggestions_ok E (numeric_suffixes E b (i + 1)
        (addSuggestion E s (''.'' @ b @ decimal i)))"
      by (rule "1.IH")
    with True show ?thesis by (subst numeric_suffixes.simps) simp
  next
    case False
    with "1.prems" show ?thesis by (subst numeric_suffixes.simps) auto
  qed
qed

lemma strategies_ok: "suggestions_ok E (strategies E b syns)"
  unfolding strategies_def Let_def foldl_Cons foldl_Nil
  by (intro numeric_suffixes_ok if_ok foldl_ok addSuggestion_ok startsWith_dot
      suggestions_ok_Nil)

lemma suggestions_ok_take: "suggestions_ok E s \<Longrightarrow> suggestions_ok E (take n s)"
  by (auto simp: suggestions_ok_def list_all_iff dest: in_set_takeD)

text \<open>
  When the call finds no cache entry and does not throw, the claim's properties hold:
  at most five suggestions, distinct, each starting with a period and none of them an
  existing command in lower case. A base command that is empty or has no leading
  period gives the empty list.
\<close>

lemma generateCommandSuggestions_miss:
  assumes "\<not> cache_has cache (baseCommand @ '':'' @ join '','' (js_sort existingCommands))"
    and "fst (generateCommandSuggestions cache baseCommand existingCommands) = Inr r"
  shows "length r \<le> 5 \<and> distinct r \<and>
         (\<forall>s\<in>set r. startsWith s ''.'' \<and>
            toLowerCase s \<notin> set (map toLowerCase existingCommands))"
proof (cases "baseCommand = [] \<or> \<not> startsWith baseCommand ''.''")
  case True
  with assms(2) show ?thesis by (auto simp: generateCommandSuggestions_def)
next
  case False
  have set_sort: "set (js_sort xs) = set xs" for xs
  proof -
    have "set (sort_insert x ys) = insert x (set ys)" for x ys
      by (induction ys) auto
    then show ?thesis unfolding js_sort_def by (induction xs) auto
  qed
  let ?E = "map toLowerCase (js_sort existingCommands)"
  from assms False have "\<exists>syns. r = take 5 (strategies ?E (drop 1 baseCommand) syns)"
    by (auto simp: generateCommandSuggestions_def Let_def split: property.splits)
  then obtain syns where r: "r = take 5 (strategies ?E (drop 1 baseCommand) syns)" ..
  have "suggestions_ok ?E r" unfolding r by (intro suggestions_ok_take strategies_ok)
  then show ?thesis by (auto simp: suggestions_ok_def list_all_iff set_sort)
qed

lemma generateCommandSuggestions_invalid_base:
  "baseCommand = [] \<or> \<not> startsWith baseCommand ''.'' \<Longrightarrow>
   generateCommandSuggestions cache baseCommand existingCommands = (Inr [], cache)"
  by (simp add: generateCommandSuggestions_def)

text \<open>
  The two lemmas at the base command \<open>.test\<close>, with \<open>.TEST_new\<close> among the existing
  commands, and at a base command without a period.
\<close>

lemma generateCommandSuggestions_miss_witness:
  "fst (generateCommandSuggestions [] ''.test'' [''.test'', ''.TEST_new'']) =
     Inr [''.test_alt'', ''.test_work'', ''.test_personal'', ''.test_temp'', ''.test2''] \<and>
   length [''.test_alt'', ''.test_work'', ''.test_personal'', ''.test_temp'', ''.test2''] \<le> 5 \<and>
   distinct [''.test_alt'', ''.test_work'', ''.test_personal'', ''.test_temp'', ''.test2''] \<and>
   toLowerCase ''.test_alt'' \<notin> set (map toLowerCase [''.test'', ''.TEST_new''])"
proof -
  have miss: "\<not> cache_has [] (''.test'' @ '':'' @ join '','' (js_sort [''.test'', ''.TEST_new'']))"
    by (simp add: cache_has_def)
  have r: "fst (generateCommandSuggestions [] ''.test'' [''.test'', ''.TEST_new'']) =
      Inr [''.test_alt'', ''.test_work'', ''.test_personal'', ''.test_temp'', ''.test2'']"
    by code_simp
  from generateCommandSuggestions_miss[OF miss r] r show ?thesis by simp
qed

lemma generateCommandSuggestions_invalid_base_witness:
  "generateCommandSuggestions [] ''nosig'' [''.sig''] = (Inr [], []) \<and>
   generateCommandSuggestions [] [] [''.sig''] = (Inr [], [])"
  using generateCommandSuggestions_invalid_base[of "''nosig''" "[]" "[''.sig'']"]
        generateCommandSuggestions_invalid_base[of "[]" "[]" "[''.sig'']"]
  by (simp add: startsWith_def)

text \<open>
  C10. The call does not return for every base command: the key \<open>constructor\<close> finds
  the inherited property of the object literal, \<open>synonymMap[...] || []\<close> keeps it, and
  the \<open>for ... of\<close> over it throws a TypeError. The base command \<open>.constructor\<close> is one
  \<open>validateRule\<close> accepts.
\<close>

theorem generateCommandSuggestions_constructor_throws:
  "generateCommandSuggestions [] ''.constructor'' [''.constructor''] = (Inl TypeError, []) \<and>
   errors_of F_command
     (validateRule \<lparr>command = ''.constructor'', replacementText = ''x''\<rparr> [] None) = []"
  by code_simp

text \<open>
  The cache key joins the existing commands with commas, so two different lists can
  share a key: the answer computed for the one list \<open>.x_new,a\<close> is handed out for the
  two commands \<open>.x_new\<close> and \<open>a\<close>, and suggests \<open>.x_new\<close>, which exists.
\<close>

lemma generateCommandSuggestions_key_collision:
  "fst (generateCommandSuggestions
          (snd (generateCommandSuggestions [] ''.x'' [''.x_new,a'']))
          ''.x'' [''.x_new'', ''a'']) =
     Inr [''.x_new'', ''.x_alt'', ''.x_work'', ''.x_personal'', ''.x_temp'']"
  by code_simp

section \<open>The rules file (lib/storage.ts)\<close>

subsection \<open>JSON values and \<open>JSON.parse\<close>\<close>

text \<open>
  A string inside a JSON value is a list of UTF-16 code units, numbers below 65536: an
  escape \<open>\<bsol>uXXXX\<close> can name any of them. The text that is parsed is, as everywhere
  here, a list of the characters U+0000 to U+00FF.

  A Number is a double: a finite value, kept as the rational it is, negative zero, or an
  infinity (a long literal overflows); no literal gives NaN.

  An object lists its properties in the order the run time enumerates them: the array
  indices in ascending order first, then the other keys in the order of their creation.
\<close>

type_synonym code_units = "nat list"

definition units :: "string \<Rightarrow> code_units" where
  "units s = map of_char s"

datatype number = Finite rat | NegativeZero | PosInfinity | NegInfinity

datatype json =
  JNull
  | JBool bool
  | JNum number
  | JStr code_units
  | JArr "json list"
  | JObj "(code_units \<times> json) list"

datatype token =
  TLBrace | TRBrace | TLBracket | TRBracket | TColon | TComma
  | TString code_units | TNumber number | TTrue | TFalse | TNull

subsubsection \<open>The value of a number literal\<close>

text \<open>
  The literal denotes a rational \<open>x\<close>; the Number is the double nearest to it, the one
  with an even significand when two are equally near. For \<open>x > 0\<close> with
  \<open>2 ^ e \<le> x < 2 ^ (e + 1)\<close> the doubles around \<open>x\<close> are the multiples of \<open>2 ^ q\<close>,
  \<open>q = max (e - 52) (- 1074)\<close>; a result of \<open>2 ^ 1024\<close> or more is Infinity.
\<close>

function bit_length :: "int \<Rightarrow> nat" where
  "bit_length n = (if n \<le> 0 then 0 else Suc (bit_length (n div 2)))"
  by pat_completeness auto
termination
  by (relation "measure nat") auto

declare bit_length.simps [simp del]

definition pow2 :: "int \<Rightarrow> rat" where
  "pow2 e = (if e < 0 then 1 / 2 ^ nat (- e) else 2 ^ nat e)"

text \<open>The \<open>e\<close> with \<open>2 ^ e \<le> x < 2 ^ (e + 1)\<close>, for \<open>x > 0\<close>, from the bit lengths of \<open>x\<close>'s fraction.\<close>

definition binary_exponent :: "rat \<Rightarrow> int" where
  "binary_exponent x =
     (let e0 = int (bit_length (fst (quotient_of x))) -
               int (bit_length (snd (quotient_of x)))
      in if pow2 e0 \<le> x then e0 else e0 - 1)"

definition round_half_even :: "rat \<Rightarrow> int" where
  "round_half_even x =
     (let f = \<lfloor>x\<rfloor>; d = x - of_int f
      in if d < 1 / 2 then f
         else if 1 / 2 < d then f + 1
         else if even f then f else f + 1)"

text \<open>The double of the magnitude \<open>x \<ge> 0\<close> with the sign \<open>negative\<close>.\<close>

definition to_double :: "bool \<Rightarrow> rat \<Rightarrow> number" where
  "to_double negative x =
     (if x = 0 then (if negative then NegativeZero else Finite 0)
      else
        let e = binary_exponent x;
            q = max (e - 52) (- 1074);
            m = round_half_even (x / pow2 q)
        in if 1023 < e \<or> (e = 1023 \<and> 2 ^ 53 \<le> m)
           then (if negative then NegInfinity else PosInfinity)
           else if m = 0 then (if negative then NegativeZero else Finite 0)
           else Finite ((if negative then - 1 else 1) * of_int m * pow2 q))"

text \<open>
  The exponent is the one of the text above, and a finite double is a multiple of
  \<open>2 ^ q\<close> that lies within half of \<open>2 ^ q\<close> of the value of the literal.
\<close>

lemma bit_length_bounds:
  "0 < n \<Longrightarrow> 2 ^ bit_length n \<le> 2 * n \<and> n < 2 ^ bit_length n"
proof (induction n rule: bit_length.induct)
  case (1 n)
  show ?case
  proof (cases "n = 1")
    case True
    then show ?thesis by (simp add: bit_length.simps[of 1] bit_length.simps[of 0])
  next
    case False
    with "1.prems" have h: "0 < n div 2" by simp
    from "1.IH" "1.prems" h have IH: "2 ^ bit_length (n div 2) \<le> 2 * (n div 2)"
      "n div 2 < 2 ^ bit_length (n div 2)" by simp_all
    have b: "bit_length n = Suc (bit_length (n div 2))"
      using "1.prems" by (subst bit_length.simps) simp
    show ?thesis using IH unfolding b by auto
  qed
qed

lemma pow2_powi: "pow2 e = 2 powi e"
  by (simp add: pow2_def power_int_def field_simps)

lemma binary_exponent_bounds:
  assumes "0 < x"
  shows "pow2 (binary_exponent x) \<le> x \<and> x < pow2 (binary_exponent x + 1)"
proof -
  obtain p q where pq: "quotient_of x = (p, q)" by (cases "quotient_of x")
  have q: "0 < q" using pq quotient_of_denom_pos by blast
  have x: "x = of_int p / of_int q" using pq quotient_of_div by blast
  have p: "0 < p" using assms q x by (simp add: zero_less_divide_iff)
  let ?a = "bit_length p" and ?b = "bit_length q"
  have pa: "(2::rat) ^ ?a \<le> 2 * of_int p" "(of_int p :: rat) < 2 ^ ?a"
  proof -
    from bit_length_bounds[OF p] have "2 ^ ?a \<le> 2 * p" "p < 2 ^ ?a" by simp_all
    then have "(of_int (2 ^ ?a) :: rat) \<le> of_int (2 * p)" "(of_int p :: rat) < of_int (2 ^ ?a)"
      by (simp_all only: of_int_le_iff of_int_less_iff)
    then show "(2::rat) ^ ?a \<le> 2 * of_int p" "(of_int p :: rat) < 2 ^ ?a" by simp_all
  qed
  have qb: "(2::rat) ^ ?b \<le> 2 * of_int q" "(of_int q :: rat) < 2 ^ ?b"
  proof -
    from bit_length_bounds[OF q] have "2 ^ ?b \<le> 2 * q" "q < 2 ^ ?b" by simp_all
    then have "(of_int (2 ^ ?b) :: rat) \<le> of_int (2 * q)" "(of_int q :: rat) < of_int (2 ^ ?b)"
      by (simp_all only: of_int_le_iff of_int_less_iff)
    then show "(2::rat) ^ ?b \<le> 2 * of_int q" "(of_int q :: rat) < 2 ^ ?b" by simp_all
  qed
  have xq: "x * of_int q = of_int p" using x q by simp
  have up: "x * 2 ^ ?b < 2 * 2 ^ ?a"
  proof -
    have "x * 2 ^ ?b \<le> x * (2 * of_int q)" using qb(1) assms by simp
    also have "\<dots> = 2 * of_int p" using xq by (simp add: algebra_simps)
    also have "\<dots> < 2 * 2 ^ ?a" using pa(2) by simp
    finally show ?thesis .
  qed
  have low: "2 ^ ?a < x * (2 * 2 ^ ?b)"
  proof -
    have "(2::rat) ^ ?a \<le> 2 * of_int p" by (rule pa(1))
    also have "\<dots> = x * (2 * of_int q)" using xq by (simp add: algebra_simps)
    also have "\<dots> < x * (2 * 2 ^ ?b)" using qb(2) assms by simp
    finally show ?thesis .
  qed
  have up': "x < 2 powi (int ?a - int ?b + 1)"
  proof -
    have "x < 2 * 2 ^ ?a / 2 ^ ?b" using up by (simp add: pos_less_divide_eq)
    also have "\<dots> = 2 powi (int ?a - int ?b + 1)"
      by (simp add: power_int_add power_int_diff)
    finally show ?thesis .
  qed
  have low': "2 powi (int ?a - int ?b - 1) < x"
  proof -
    have "2 ^ ?a / (2 * 2 ^ ?b) < x" using low by (simp add: pos_divide_less_eq)
    moreover have "2 ^ ?a / (2 * 2 ^ ?b) = (2::rat) powi (int ?a - int ?b - 1)"
      by (simp add: power_int_diff)
    ultimately show ?thesis by simp
  qed
  show ?thesis
  proof (cases "pow2 (int ?a - int ?b) \<le> x")
    case True
    then show ?thesis
      using up' by (simp add: binary_exponent_def pq Let_def pow2_powi)
  next
    case False
    then show ?thesis
      using low' by (simp add: binary_exponent_def pq Let_def pow2_powi)
  qed
qed

lemma round_half_even_near: "\<bar>of_int (round_half_even z) - z\<bar> \<le> 1 / 2"
proof -
  define f where "f = \<lfloor>z\<rfloor>"
  have f: "of_int f \<le> z" "z < of_int f + 1"
    unfolding f_def by linarith+
  have r: "round_half_even z =
      (if z - of_int f < 1 / 2 then f
       else if 1 / 2 < z - of_int f then f + 1
       else if even f then f else f + 1)"
    by (simp add: round_half_even_def Let_def f_def)
  show ?thesis
    unfolding r using f by (simp add: abs_if)
qed

lemma round_half_even_nonneg: "0 \<le> z \<Longrightarrow> 0 \<le> round_half_even z"
  by (auto simp: round_half_even_def Let_def)

lemma pow2_pos: "0 < pow2 e"
  by (simp add: pow2_def)

lemma to_double_near:
  assumes "0 < x" "to_double negative x = Finite y"
  shows "\<exists>m. \<bar>y\<bar> = of_int m * pow2 (max (binary_exponent x - 52) (- 1074)) \<and>
             \<bar>\<bar>y\<bar> - x\<bar> \<le> pow2 (max (binary_exponent x - 52) (- 1074)) / 2"
proof -
  let ?q = "max (binary_exponent x - 52) (- 1074)"
  let ?m = "round_half_even (x / pow2 ?q)"
  have m0: "0 \<le> ?m"
    using assms(1) pow2_pos[of ?q] by (intro round_half_even_nonneg) simp
  have y: "\<bar>y\<bar> = of_int ?m * pow2 ?q"
  proof (cases "?m = 0")
    case True
    with assms show ?thesis
      by (auto simp: to_double_def Let_def split: if_splits)
  next
    case False
    with assms have "y = (if negative then - 1 else 1) * of_int ?m * pow2 ?q"
      by (auto simp: to_double_def Let_def split: if_splits)
    then have "\<bar>y\<bar> = \<bar>of_int ?m * pow2 ?q\<bar>"
      by (simp split: if_splits)
    also have "\<dots> = of_int ?m * pow2 ?q"
      using m0 pow2_pos[of ?q] by (intro abs_of_nonneg) simp
    finally show ?thesis .
  qed
  have "\<bar>of_int ?m - x / pow2 ?q\<bar> \<le> 1 / 2" by (rule round_half_even_near)
  then have "\<bar>of_int ?m - x / pow2 ?q\<bar> * pow2 ?q \<le> 1 / 2 * pow2 ?q"
    using pow2_pos[of ?q] by (intro mult_right_mono) simp_all
  moreover have "\<bar>of_int ?m - x / pow2 ?q\<bar> * pow2 ?q = \<bar>of_int ?m * pow2 ?q - x\<bar>"
  proof -
    have "\<bar>of_int ?m - x / pow2 ?q\<bar> * pow2 ?q = \<bar>(of_int ?m - x / pow2 ?q) * pow2 ?q\<bar>"
      using pow2_pos[of ?q] by (simp add: abs_mult)
    also have "(of_int ?m - x / pow2 ?q) * pow2 ?q = of_int ?m * pow2 ?q - x"
      using pow2_pos[of ?q] by (simp add: algebra_simps)
    finally show ?thesis .
  qed
  ultimately have "\<bar>\<bar>y\<bar> - x\<bar> \<le> pow2 ?q / 2" by (simp add: y)
  with y show ?thesis by blast
qed


definition is_digit :: "char \<Rightarrow> bool" where
  "is_digit c = (48 \<le> (of_char c :: nat) \<and> (of_char c :: nat) \<le> 57)"

definition digit_value :: "char \<Rightarrow> int" where
  "digit_value c = of_char c - 48"

definition digits_value :: "string \<Rightarrow> int" where
  "digits_value ds = foldl (\<lambda>n c. 10 * n + digit_value c) 0 ds"

definition hex_value :: "char \<Rightarrow> nat option" where
  "hex_value c =
     (let n = (of_char c :: nat)
      in if 48 \<le> n \<and> n \<le> 57 then Some (n - 48)
         else if 97 \<le> n \<and> n \<le> 102 then Some (n - 87)
         else if 65 \<le> n \<and> n \<le> 70 then Some (n - 55)
         else None)"

text \<open>The code unit a one-letter escape stands for.\<close>

definition simple_escape :: "char \<Rightarrow> nat option" where
  "simple_escape e =
     (if e = CHR 0x22 then Some 0x22
      else if e = CHR 0x5C then Some 0x5C
      else if e = CHR ''/'' then Some 0x2F
      else if e = CHR ''b'' then Some 0x08
      else if e = CHR ''f'' then Some 0x0C
      else if e = CHR ''n'' then Some 0x0A
      else if e = CHR ''r'' then Some 0x0D
      else if e = CHR ''t'' then Some 0x09
      else None)"

definition prepend ::
  "nat \<Rightarrow> (code_units \<times> string) option \<Rightarrow> (code_units \<times> string) option" where
  "prepend u r = (case r of None \<Rightarrow> None | Some (s, rest) \<Rightarrow> Some (u # s, rest))"

text \<open>
  The text after a backslash: the code unit the escape stands for and the text after
  the escape. \<open>\<bsol>uXXXX\<close> names the code unit with the four hexadecimal digits.
\<close>

definition lex_escape :: "string \<Rightarrow> (nat \<times> string) option" where
  "lex_escape cs =
     (case cs of
        [] \<Rightarrow> None
      | e # cs' \<Rightarrow>
          if e = CHR ''u'' then
            (case cs' of
               h1 # h2 # h3 # h4 # cs'' \<Rightarrow>
                 (case (hex_value h1, hex_value h2, hex_value h3, hex_value h4) of
                    (Some a, Some b, Some c, Some d) \<Rightarrow>
                      Some (((a * 16 + b) * 16 + c) * 16 + d, cs'')
                  | _ \<Rightarrow> None)
             | _ \<Rightarrow> None)
          else (case simple_escape e of None \<Rightarrow> None | Some x \<Rightarrow> Some (x, cs')))"

lemma lex_escape_shorter: "lex_escape cs = Some (x, rest) \<Longrightarrow> length rest < length cs"
  by (auto simp: lex_escape_def Let_def split: list.splits if_splits option.splits)

text \<open>
  The characters of a string literal after its opening quote: the string and the text
  after the closing quote.
\<close>

function lex_string :: "string \<Rightarrow> (code_units \<times> string) option" where
  "lex_string [] = None"
| "lex_string (c # cs) =
     (if c = CHR 0x22 then Some ([], cs)
      else if c = CHR 0x5C then
        (case lex_escape cs of
           None \<Rightarrow> None
         | Some (x, rest) \<Rightarrow> prepend x (lex_string rest))
      else if (of_char c :: nat) < 32 then None
      else prepend (of_char c) (lex_string cs))"
  by pat_completeness auto
termination
  by (relation "measure length") (auto dest: lex_escape_shorter)

declare lex_string.simps(2) [simp del]

lemma prepend_Some: "prepend c r = Some (s, rest) \<Longrightarrow> \<exists>s'. r = Some (s', rest)"
  by (auto simp: prepend_def split: option.splits)

lemma lex_string_shorter: "lex_string cs = Some (s, rest) \<Longrightarrow> length rest < length cs"
proof (induction cs arbitrary: s rest rule: lex_string.induct)
  case 1
  then show ?case by simp
next
  case (2 c cs)
  show ?case
  proof (cases "c = CHR 0x22")
    case True
    with "2.prems" show ?thesis by (simp add: lex_string.simps(2))
  next
    case nq: False
    show ?thesis
    proof (cases "c = CHR 0x5C")
      case True
      with nq "2.prems" obtain x r where e: "lex_escape cs = Some (x, r)"
        and p: "prepend x (lex_string r) = Some (s, rest)"
        by (auto simp: lex_string.simps(2) split: option.splits)
      from p obtain s' where "lex_string r = Some (s', rest)" by (blast dest: prepend_Some)
      with "2.IH"(1)[OF nq True e] have "length rest < length r" by blast
      with lex_escape_shorter[OF e] show ?thesis by simp
    next
      case False
      with nq "2.prems" have c: "\<not> (of_char c :: nat) < 32"
        and p: "prepend (of_char c) (lex_string cs) = Some (s, rest)"
        by (auto simp: lex_string.simps(2) split: if_splits)
      from p obtain s' where "lex_string cs = Some (s', rest)" by (blast dest: prepend_Some)
      with "2.IH"(2)[OF nq False c] show ?thesis by fastforce
    qed
  qed
qed

text \<open>
  A number literal \<open>-?(0|[1-9][0-9]*)(\.[0-9]+)?([eE][+-]?[0-9]+)?\<close> at the head of the
  text, part by part: each part gives its value and the text after it. The three values
  make the rational the literal denotes, and the Number is its double.
\<close>

definition lex_int :: "string \<Rightarrow> (int \<times> string) option" where
  "lex_int cs =
     (let ds = takeWhile is_digit cs
      in if ds = [] \<or> (length ds > 1 \<and> hd ds = CHR ''0'') then None
         else Some (digits_value ds, dropWhile is_digit cs))"

definition lex_frac :: "string \<Rightarrow> (rat \<times> string) option" where
  "lex_frac cs =
     (case cs of
        [] \<Rightarrow> Some (0, cs)
      | c # cs' \<Rightarrow>
          if c = CHR ''.'' then
            (let ds = takeWhile is_digit cs'
             in if ds = [] then None
                else Some (of_int (digits_value ds) / 10 ^ length ds, dropWhile is_digit cs'))
          else Some (0, cs))"

definition lex_exp :: "string \<Rightarrow> (int \<times> string) option" where
  "lex_exp cs =
     (case cs of
        [] \<Rightarrow> Some (0, cs)
      | c # cs' \<Rightarrow>
          if c = CHR ''e'' \<or> c = CHR ''E'' then
            (let negative = (cs' \<noteq> [] \<and> hd cs' = CHR ''-'');
                 signed = (cs' \<noteq> [] \<and> (hd cs' = CHR ''-'' \<or> hd cs' = CHR ''+''));
                 cs'' = (if signed then tl cs' else cs');
                 ds = takeWhile is_digit cs''
             in if ds = [] then None
                else Some (if negative then - digits_value ds else digits_value ds,
                           dropWhile is_digit cs''))
          else Some (0, cs))"

definition scale10 :: "rat \<Rightarrow> int \<Rightarrow> rat" where
  "scale10 x e = (if e < 0 then x / 10 ^ nat (- e) else x * 10 ^ nat e)"

definition lex_number :: "string \<Rightarrow> (number \<times> string) option" where
  "lex_number cs =
     (let negative = (cs \<noteq> [] \<and> hd cs = CHR ''-'')
      in case lex_int (if negative then tl cs else cs) of
           None \<Rightarrow> None
         | Some (n, cs1) \<Rightarrow>
             (case lex_frac cs1 of
                None \<Rightarrow> None
              | Some (f, cs2) \<Rightarrow>
                  (case lex_exp cs2 of
                     None \<Rightarrow> None
                   | Some (e, cs3) \<Rightarrow>
                       Some (to_double negative (scale10 (of_int n + f) e), cs3))))"

lemma length_dropWhile_takeWhile:
  "length (dropWhile P xs) + length (takeWhile P xs) = length xs"
  by (induction xs) auto

lemma lex_int_shorter: "lex_int cs = Some (n, rest) \<Longrightarrow> length rest < length cs"
proof -
  assume a: "lex_int cs = Some (n, rest)"
  then have "takeWhile is_digit cs \<noteq> []" and "rest = dropWhile is_digit cs"
    by (auto simp: lex_int_def Let_def split: if_splits)
  with length_dropWhile_takeWhile[of is_digit cs] show ?thesis
    by (cases "takeWhile is_digit cs") auto
qed

lemma lex_frac_shorter: "lex_frac cs = Some (f, rest) \<Longrightarrow> length rest \<le> length cs"
  using length_dropWhile_le[of is_digit]
  by (auto simp: lex_frac_def Let_def le_SucI split: list.splits if_splits)

lemma lex_exp_shorter: "lex_exp cs = Some (e, rest) \<Longrightarrow> length rest \<le> length cs"
proof -
  assume a: "lex_exp cs = Some (e, rest)"
  show ?thesis
  proof (cases cs)
    case Nil
    with a show ?thesis by (simp add: lex_exp_def)
  next
    case (Cons c cs')
    show ?thesis
    proof (cases "c = CHR ''e'' \<or> c = CHR ''E''")
      case False
      with a Cons show ?thesis by (auto simp: lex_exp_def)
    next
      case True
      with a Cons have "rest = dropWhile is_digit cs' \<or> rest = dropWhile is_digit (tl cs')"
        by (auto simp: lex_exp_def Let_def split: if_splits)
      moreover have "length (dropWhile is_digit cs') \<le> length cs'"
        by (rule length_dropWhile_le)
      moreover have "length (dropWhile is_digit (tl cs')) \<le> length cs'"
        using length_dropWhile_le[of is_digit "tl cs'"] by simp
      ultimately show ?thesis using Cons by auto
    qed
  qed
qed

lemma lex_number_shorter: "lex_number cs = Some (r, rest) \<Longrightarrow> length rest < length cs"
proof -
  assume a: "lex_number cs = Some (r, rest)"
  let ?cs0 = "if cs \<noteq> [] \<and> hd cs = CHR ''-'' then tl cs else cs"
  from a obtain n cs1 f cs2 e where i: "lex_int ?cs0 = Some (n, cs1)"
    and fr: "lex_frac cs1 = Some (f, cs2)" and ex: "lex_exp cs2 = Some (e, rest)"
    by (auto simp: lex_number_def Let_def split: option.splits)
  have "length ?cs0 \<le> length cs" by simp
  with lex_int_shorter[OF i] lex_frac_shorter[OF fr] lex_exp_shorter[OF ex]
  show ?thesis by linarith
qed

text \<open>
  The tokens of a text. Space, tab, line feed and carriage return separate tokens.
\<close>

function lex :: "string \<Rightarrow> token list option" where
  "lex [] = Some []"
| "lex (c # cs) =
     (if c = CHR '' '' \<or> c = CHR 0x09 \<or> c = CHR 0x0A \<or> c = CHR 0x0D then lex cs
      else if c = CHR ''{'' then map_option (Cons TLBrace) (lex cs)
      else if c = CHR ''}'' then map_option (Cons TRBrace) (lex cs)
      else if c = CHR ''['' then map_option (Cons TLBracket) (lex cs)
      else if c = CHR '']'' then map_option (Cons TRBracket) (lex cs)
      else if c = CHR '':'' then map_option (Cons TColon) (lex cs)
      else if c = CHR '','' then map_option (Cons TComma) (lex cs)
      else if c = CHR 0x22 then
        (case lex_string cs of
           None \<Rightarrow> None
         | Some (s, rest) \<Rightarrow> map_option (Cons (TString s)) (lex rest))
      else if take 4 (c # cs) = ''true'' then map_option (Cons TTrue) (lex (drop 3 cs))
      else if take 5 (c # cs) = ''false'' then map_option (Cons TFalse) (lex (drop 4 cs))
      else if take 4 (c # cs) = ''null'' then map_option (Cons TNull) (lex (drop 3 cs))
      else if c = CHR ''-'' \<or> is_digit c then
        (case lex_number (c # cs) of
           None \<Rightarrow> None
         | Some (r, rest) \<Rightarrow> map_option (Cons (TNumber r)) (lex rest))
      else None)"
  by pat_completeness auto
termination
  apply (relation "measure length")
  apply simp_all
  subgoal for c cs x2 x y using lex_string_shorter[of cs x y] by simp
  subgoal for c cs x2 x y using lex_number_shorter[of "c # cs" x y] by simp
  done

declare lex.simps(2) [simp del]

text \<open>
  The parser reads the tokens from left to right. Its state says what may come next
  and holds the members of the array or object being read; the stack holds the arrays
  and objects around it, each waiting for the value being read.
\<close>

datatype frame = InArray "json list" | InObject "(code_units \<times> json) list" code_units

datatype expect =
  Value
  | ValueOrEnd
  | KeyOrEnd
  | Key "(code_units \<times> json) list"
  | Colon "(code_units \<times> json) list" code_units
  | ArraySep "json list"
  | ObjectSep "(code_units \<times> json) list"
  | Finished json

type_synonym parser_state = "expect \<times> frame list"

text \<open>
  A key is an array index when it is the decimal numeral, without a leading zero, of a
  number below \<open>2 ^ 32 - 1\<close>.
\<close>

definition index_value :: "code_units \<Rightarrow> int" where
  "index_value k = foldl (\<lambda>n u. 10 * n + (int u - 48)) 0 k"

definition is_array_index :: "code_units \<Rightarrow> bool" where
  "is_array_index k =
     (k \<noteq> [] \<and> list_all (\<lambda>u. 48 \<le> u \<and> u \<le> 57) k \<and> (k = [48] \<or> hd k \<noteq> 48) \<and>
      length k \<le> 10 \<and> index_value k < 4294967295)"

text \<open>
  The parser defines the members of an object one by one. A key the object has keeps its
  place and takes the new value; a new array index goes among the indices, in ascending
  order; any other new key goes to the end.
\<close>

fun insert_index ::
  "code_units \<Rightarrow> json \<Rightarrow> (code_units \<times> json) list \<Rightarrow> (code_units \<times> json) list" where
  "insert_index k v [] = [(k, v)]"
| "insert_index k v ((k', v') # rest) =
     (if is_array_index k' \<and> index_value k' < index_value k
      then (k', v') # insert_index k v rest
      else (k, v) # (k', v') # rest)"

definition obj_put ::
  "(code_units \<times> json) list \<Rightarrow> code_units \<Rightarrow> json \<Rightarrow> (code_units \<times> json) list" where
  "obj_put kvs k v =
     (if k \<in> fst ` set kvs then map (\<lambda>(k', v'). if k' = k then (k', v) else (k', v')) kvs
      else if is_array_index k then insert_index k v kvs
      else kvs @ [(k, v)])"

text \<open>A value is complete: it goes to the array or object waiting for it.\<close>

fun deliver :: "json \<Rightarrow> frame list \<Rightarrow> parser_state" where
  "deliver v [] = (Finished v, [])"
| "deliver v (InArray xs # stk) = (ArraySep (xs @ [v]), stk)"
| "deliver v (InObject kvs k # stk) = (ObjectSep (obj_put kvs k v), stk)"

fun step_value :: "frame list \<Rightarrow> token \<Rightarrow> parser_state option" where
  "step_value stk (TString s) = Some (deliver (JStr s) stk)"
| "step_value stk (TNumber r) = Some (deliver (JNum r) stk)"
| "step_value stk TTrue = Some (deliver (JBool True) stk)"
| "step_value stk TFalse = Some (deliver (JBool False) stk)"
| "step_value stk TNull = Some (deliver JNull stk)"
| "step_value stk TLBracket = Some (ValueOrEnd, stk)"
| "step_value stk TLBrace = Some (KeyOrEnd, stk)"
| "step_value stk _ = None"

fun step :: "parser_state \<Rightarrow> token \<Rightarrow> parser_state option" where
  "step (Value, stk) t = step_value stk t"
| "step (ValueOrEnd, stk) t =
     (if t = TRBracket then Some (deliver (JArr []) stk) else step_value (InArray [] # stk) t)"
| "step (ArraySep xs, stk) t =
     (if t = TComma then Some (Value, InArray xs # stk)
      else if t = TRBracket then Some (deliver (JArr xs) stk)
      else None)"
| "step (KeyOrEnd, stk) t =
     (case t of
        TRBrace \<Rightarrow> Some (deliver (JObj []) stk)
      | TString k \<Rightarrow> Some (Colon [] k, stk)
      | _ \<Rightarrow> None)"
| "step (Key kvs, stk) t = (case t of TString k \<Rightarrow> Some (Colon kvs k, stk) | _ \<Rightarrow> None)"
| "step (Colon kvs k, stk) t = (if t = TColon then Some (Value, InObject kvs k # stk) else None)"
| "step (ObjectSep kvs, stk) t =
     (if t = TComma then Some (Key kvs, stk)
      else if t = TRBrace then Some (deliver (JObj kvs) stk)
      else None)"
| "step (Finished v, stk) t = None"

fun run :: "parser_state \<Rightarrow> token list \<Rightarrow> json option" where
  "run st [] = (case st of (Finished v, []) \<Rightarrow> Some v | _ \<Rightarrow> None)"
| "run st (t # ts) = (case step st t of None \<Rightarrow> None | Some st' \<Rightarrow> run st' ts)"

text \<open>\<open>JSON.parse\<close>: \<open>None\<close> is the SyntaxError it throws.\<close>

definition JSON_parse :: "string \<Rightarrow> json option" where
  "JSON_parse text = (case lex text of None \<Rightarrow> None | Some ts \<Rightarrow> run (Value, []) ts)"

text \<open>
  Property access \<open>v.name\<close> for the two names the rules file is asked for, \<open>version\<close>
  and \<open>rules\<close>: an object gives its member with that key, and a primitive or an array
  has no such property (\<open>None\<close> is \<open>undefined\<close>). \<open>null\<close> is never asked: the callers
  test it first.
\<close>

definition get_prop :: "json \<Rightarrow> string \<Rightarrow> json option" where
  "get_prop v name = (case v of JObj kvs \<Rightarrow> map_of kvs (units name) | _ \<Rightarrow> None)"

definition is_zero :: "number \<Rightarrow> bool" where
  "is_zero n = (n = Finite 0 \<or> n = NegativeZero)"

fun truthy :: "json \<Rightarrow> bool" where
  "truthy JNull = False"
| "truthy (JBool b) = b"
| "truthy (JNum r) = (\<not> is_zero r)"
| "truthy (JStr s) = (s \<noteq> [])"
| "truthy (JArr xs) = True"
| "truthy (JObj kvs) = True"

text \<open>\<open>typeof v === "object"\<close>.\<close>

fun typeof_object :: "json \<Rightarrow> bool" where
  "typeof_object JNull = True"
| "typeof_object (JArr xs) = True"
| "typeof_object (JObj kvs) = True"
| "typeof_object _ = False"

text \<open>\<open>Array.isArray\<close> of a property that may be undefined.\<close>

fun isArray :: "json option \<Rightarrow> bool" where
  "isArray (Some (JArr xs)) = True"
| "isArray _ = False"

definition RULES_VERSION :: number where
  "RULES_VERSION = Finite 1"

text \<open>
  \<open>v === n\<close> for a property \<open>v\<close> that may be undefined and a number \<open>n\<close>: \<open>v\<close> is a
  number and the same double, the two zeros being equal.
\<close>

fun strict_equals :: "json option \<Rightarrow> number \<Rightarrow> bool" where
  "strict_equals (Some (JNum m)) n = (m = n \<or> (is_zero m \<and> is_zero n))"
| "strict_equals _ n = False"

definition STORAGE_KEY :: string where
  "STORAGE_KEY = ''dotdash.rules.v1''"

text \<open>
  \<open>parseRulesFile\<close>: the \<open>try\<close> turns the SyntaxError into \<open>null\<close>. The result is the
  array under \<open>rules\<close> as it was parsed; its elements are not looked at.
\<close>

definition parseRulesFile :: "string \<Rightarrow> json list option" where
  "parseRulesFile text =
     (case JSON_parse text of
        None \<Rightarrow> None
      | Some parsed \<Rightarrow>
          if \<not> truthy parsed \<or> \<not> strict_equals (get_prop parsed ''version'') RULES_VERSION \<or>
             \<not> isArray (get_prop parsed ''rules'')
          then None
          else (case get_prop parsed ''rules'' of Some (JArr rules) \<Rightarrow> Some rules | _ \<Rightarrow> None))"

text \<open>
  \<open>loadRulesFromStorage\<close> reads \<open>localStorage\<close>, a map from keys to strings;
  \<open>getItem\<close> gives \<open>null\<close> for a missing key.
\<close>

definition loadRulesFromStorage :: "(string \<rightharpoonup> string) \<Rightarrow> json list option" where
  "loadRulesFromStorage localStorage =
     (case localStorage STORAGE_KEY of
        None \<Rightarrow> None
      | Some raw \<Rightarrow>
          if raw = [] then None
          else (case JSON_parse raw of
                  None \<Rightarrow> None
                | Some parsed \<Rightarrow>
                    if \<not> typeof_object parsed \<or> parsed = JNull then None
                    else if \<not> strict_equals (get_prop parsed ''version'') RULES_VERSION then None
                    else if \<not> isArray (get_prop parsed ''rules'') then None
                    else (case get_prop parsed ''rules'' of
                            Some (JArr rules) \<Rightarrow> Some rules
                          | _ \<Rightarrow> None)))"

text \<open>
  \<open>JSON.stringify(payload, null, 2)\<close> on a \<open>RulesFile\<close>. A string is quoted with its
  escapes; an object or array that is not empty puts each member on a line of its own,
  indented two spaces more than its bracket, with \<open>,\<close> between the members and
  \<open>": "\<close> after a key. The arguments \<open>members\<close> and \<open>elems\<close> are already serialised.
\<close>

definition hex_digit :: "nat \<Rightarrow> char" where
  "hex_digit d = (if d < 10 then char_of (48 + d) else char_of (87 + d))"

definition quote_char :: "char \<Rightarrow> string" where
  "quote_char c =
     (if c = CHR 0x08 then [CHR 0x5C, CHR ''b'']
      else if c = CHR 0x09 then [CHR 0x5C, CHR ''t'']
      else if c = CHR 0x0A then [CHR 0x5C, CHR ''n'']
      else if c = CHR 0x0C then [CHR 0x5C, CHR ''f'']
      else if c = CHR 0x0D then [CHR 0x5C, CHR ''r'']
      else if c = CHR 0x22 then [CHR 0x5C, CHR 0x22]
      else if c = CHR 0x5C then [CHR 0x5C, CHR 0x5C]
      else if (of_char c :: nat) < 32
      then [CHR 0x5C, CHR ''u'', CHR ''0'', CHR ''0'',
            hex_digit (of_char c div 16), hex_digit (of_char c mod 16)]
      else [c])"

definition quote :: "string \<Rightarrow> string" where
  "quote s = [CHR 0x22] @ concat (map quote_char s) @ [CHR 0x22]"

definition indent :: "nat \<Rightarrow> string" where
  "indent n = replicate n (CHR '' '')"

fun join_lines :: "nat \<Rightarrow> string list \<Rightarrow> string" where
  "join_lines n [] = []"
| "join_lines n [x] = x"
| "join_lines n (x # y # ys) = x @ '','' @ [CHR 0x0A] @ indent n @ join_lines n (y # ys)"

definition stringify_array :: "nat \<Rightarrow> string list \<Rightarrow> string" where
  "stringify_array n elems =
     (if elems = [] then ''[]''
      else ''['' @ [CHR 0x0A] @ indent (n + 2) @ join_lines (n + 2) elems @
           [CHR 0x0A] @ indent n @ '']'')"

definition stringify_object :: "nat \<Rightarrow> (string \<times> string) list \<Rightarrow> string" where
  "stringify_object n members =
     (if members = [] then ''{}''
      else ''{'' @ [CHR 0x0A] @ indent (n + 2) @
           join_lines (n + 2) (map (\<lambda>(k, v). quote k @ '': '' @ v) members) @
           [CHR 0x0A] @ indent n @ ''}'')"

text \<open>
  A rule at run time is an object: its properties in the order the object has them, each
  a string. \<open>JSON.stringify\<close> writes the properties in that order.
\<close>

type_synonym rule_object = "(string \<times> string) list"

definition stringify_rule :: "nat \<Rightarrow> rule_object \<Rightarrow> string" where
  "stringify_rule n r = stringify_object n (map (\<lambda>(k, v). (k, quote v)) r)"

definition serializeRules :: "rule_object list \<Rightarrow> string" where
  "serializeRules rules =
     stringify_object 0
       [(''version'', ''1''),
        (''rules'', stringify_array 2 (map (stringify_rule 4) rules))]"

text \<open>
  An \<open>ExpansionRule\<close> has the five properties \<open>id\<close>, \<open>command\<close>, \<open>replacementText\<close>,
  \<open>createdAt\<close> and \<open>updatedAt\<close>, once each. The order is the object's own: the store's
  first rule is written \<open>id\<close>, \<open>command\<close>, \<open>replacementText\<close>, \<open>createdAt\<close>,
  \<open>updatedAt\<close>, and \<open>upsertRule\<close> writes a new rule \<open>id\<close>, \<open>createdAt\<close>, \<open>updatedAt\<close>,
  \<open>command\<close>, \<open>replacementText\<close>.
\<close>

definition is_ExpansionRule :: "rule_object \<Rightarrow> bool" where
  "is_ExpansionRule r =
     (distinct (map fst r) \<and>
      set (map fst r) =
        set [''id'', ''command'', ''replacementText'', ''createdAt'', ''updatedAt''])"

text \<open>The JSON value of a rule: the same properties in the same order.\<close>

definition rule_json :: "rule_object \<Rightarrow> json" where
  "rule_json r = JObj (map (\<lambda>(k, v). (units k, JStr (units v))) r)"

subsection \<open>Theorems about the rules file\<close>

text \<open>The tokens of the compact text of a value.\<close>

fun sep_tokens :: "token list list \<Rightarrow> token list" where
  "sep_tokens [] = []"
| "sep_tokens (t # ts) = t @ concat (map ((#) TComma) ts)"

primrec tokens_of :: "json \<Rightarrow> token list" where
  "tokens_of JNull = [TNull]"
| "tokens_of (JBool b) = [if b then TTrue else TFalse]"
| "tokens_of (JNum r) = [TNumber r]"
| "tokens_of (JStr s) = [TString s]"
| "tokens_of (JArr xs) = TLBracket # sep_tokens (map tokens_of xs) @ [TRBracket]"
| "tokens_of (JObj kvs) =
     TLBrace #
     sep_tokens (map (\<lambda>(k, ts). TString k # TColon # ts) (map (map_prod (\<lambda>k. k) tokens_of) kvs)) @
     [TRBrace]"

text \<open>
  A value is plain when no object in it has a key twice or an array index for a key:
  then the parser keeps the members of every object in the order of the text.
\<close>

primrec plain :: "json \<Rightarrow> bool" where
  "plain JNull = True"
| "plain (JBool b) = True"
| "plain (JNum r) = True"
| "plain (JStr s) = True"
| "plain (JArr xs) = list_all (\<lambda>p. p) (map plain xs)"
| "plain (JObj kvs) =
     (distinct (map fst kvs) \<and> list_all (\<lambda>k. \<not> is_array_index k) (map fst kvs) \<and>
      list_all (\<lambda>(k, p). p) (map (map_prod (\<lambda>k. k) plain) kvs))"

lemma tokens_of_starts:
  "\<exists>t ts. tokens_of v = t # ts \<and> t \<noteq> TRBracket \<and> t \<noteq> TRBrace \<and> t \<noteq> TComma \<and>
          t \<noteq> TColon"
  by (cases v) auto

lemma run_ValueOrEnd:
  assumes "t \<noteq> TRBracket"
  shows "run (ValueOrEnd, stk) (t # ts) = run (Value, InArray [] # stk) (t # ts)"
  using assms by simp

lemma run_array_rest:
  assumes "\<And>x stk ts. x \<in> set ys \<Longrightarrow>
             run (Value, stk) (tokens_of x @ ts) = run (deliver x stk) ts"
  shows "run (ArraySep acc, stk)
           (concat (map ((#) TComma) (map tokens_of ys)) @ TRBracket # ts) =
         run (deliver (JArr (acc @ ys)) stk) ts"
  using assms
proof (induction ys arbitrary: acc)
  case Nil
  then show ?case by simp
next
  case (Cons y ys)
  have "run (ArraySep acc, stk)
          (concat (map ((#) TComma) (map tokens_of (y # ys))) @ TRBracket # ts) =
        run (Value, InArray acc # stk)
          (tokens_of y @ concat (map ((#) TComma) (map tokens_of ys)) @ TRBracket # ts)"
    by simp
  also have "\<dots> = run (ArraySep (acc @ [y]), stk)
          (concat (map ((#) TComma) (map tokens_of ys)) @ TRBracket # ts)"
    using Cons.prems[of y] by simp
  also have "\<dots> = run (deliver (JArr ((acc @ [y]) @ ys)) stk) ts"
    using Cons.prems by (intro Cons.IH) simp
  finally show ?case by simp
qed

lemma obj_put_new:
  assumes "k \<notin> fst ` set acc" "\<not> is_array_index k"
  shows "obj_put acc k v = acc @ [(k, v)]"
  using assms by (simp add: obj_put_def)

lemma obj_put_first: "obj_put [] k v = [(k, v)]"
  by (simp add: obj_put_def)

lemma run_object_rest:
  assumes "\<And>k v stk ts. (k, v) \<in> set kvs \<Longrightarrow>
             run (Value, stk) (tokens_of v @ ts) = run (deliver v stk) ts"
    and "distinct (map fst (acc @ kvs))"
    and "\<And>k. k \<in> fst ` set kvs \<Longrightarrow> \<not> is_array_index k"
  shows "run (ObjectSep acc, stk)
           (concat (map ((#) TComma)
              (map (\<lambda>(k, ts). TString k # TColon # ts) (map (map_prod (\<lambda>k. k) tokens_of) kvs))) @
            TRBrace # ts) =
         run (deliver (JObj (acc @ kvs)) stk) ts"
  using assms
proof (induction kvs arbitrary: acc)
  case Nil
  then show ?case by simp
next
  case (Cons kv kvs)
  obtain k v where kv: "kv = (k, v)" by (cases kv)
  let ?rest = "concat (map ((#) TComma)
              (map (\<lambda>(k, ts). TString k # TColon # ts) (map (map_prod (\<lambda>k. k) tokens_of) kvs))) @
            TRBrace # ts"
  have new: "obj_put acc k v = acc @ [(k, v)]"
  proof (rule obj_put_new)
    show "k \<notin> fst ` set acc" using Cons.prems(2) by (auto simp: kv)
    show "\<not> is_array_index k" using Cons.prems(3)[of k] by (simp add: kv)
  qed
  have "run (ObjectSep acc, stk)
          (concat (map ((#) TComma)
              (map (\<lambda>(k, ts). TString k # TColon # ts)
                 (map (map_prod (\<lambda>k. k) tokens_of) (kv # kvs)))) @ TRBrace # ts) =
        run (Value, InObject acc k # stk) (tokens_of v @ ?rest)"
    by (simp add: kv)
  also have "\<dots> = run (ObjectSep (acc @ [(k, v)]), stk) ?rest"
    using Cons.prems(1)[of k v] by (simp add: kv new)
  also have "\<dots> = run (deliver (JObj ((acc @ [(k, v)]) @ kvs)) stk) ts"
  proof (rule Cons.IH)
    show "run (Value, stk) (tokens_of v @ ts) = run (deliver v stk) ts"
      if "(k, v) \<in> set kvs" for k v stk ts
      using Cons.prems(1)[of k v stk ts] that by simp
    show "distinct (map fst ((acc @ [(k, v)]) @ kvs))"
      using Cons.prems(2) by (simp add: kv)
    show "\<not> is_array_index k" if "k \<in> fst ` set kvs" for k
      using Cons.prems(3)[of k] that by auto
  qed
  finally show ?case by (simp add: kv)
qed

text \<open>The parser reads the tokens of a plain value back to that value.\<close>

lemma run_tokens_of:
  "plain v \<Longrightarrow> run (Value, stk) (tokens_of v @ ts) = run (deliver v stk) ts"
proof (induction v arbitrary: stk ts)
  case (JArr xs)
  have IH: "run (Value, stk) (tokens_of x @ ts) = run (deliver x stk) ts"
    if "x \<in> set xs" for x stk ts
    using JArr.IH[of x] JArr.prems that by (auto simp: list_all_iff)
  show ?case
  proof (cases xs)
    case Nil
    then show ?thesis by simp
  next
    case (Cons x xs')
    obtain t tl where t: "tokens_of x = t # tl" "t \<noteq> TRBracket"
      using tokens_of_starts[of x] by blast
    let ?rest = "concat (map ((#) TComma) (map tokens_of xs')) @ TRBracket # ts"
    have "run (Value, stk) (tokens_of (JArr xs) @ ts) =
          run (ValueOrEnd, stk) (tokens_of x @ ?rest)"
      by (simp add: Cons)
    also have "\<dots> = run (Value, InArray [] # stk) (tokens_of x @ ?rest)"
      unfolding t(1) append_Cons using t(2) by (rule run_ValueOrEnd)
    also have "\<dots> = run (ArraySep [x], stk) ?rest"
      using IH[of x] by (simp add: Cons)
    also have "\<dots> = run (deliver (JArr ([x] @ xs')) stk) ts"
      using IH by (intro run_array_rest) (auto simp: Cons)
    finally show ?thesis by (simp add: Cons)
  qed
next
  case (JObj kvs)
  have IH: "run (Value, stk) (tokens_of v @ ts) = run (deliver v stk) ts"
    if "(k, v) \<in> set kvs" for k v stk ts
    using JObj.IH[of "(k, v)" v] JObj.prems that by (auto simp: list_all_iff)
  have d: "distinct (map fst kvs)" and i: "\<And>k. k \<in> fst ` set kvs \<Longrightarrow> \<not> is_array_index k"
    using JObj.prems by (auto simp: list_all_iff)
  show ?case
  proof (cases kvs)
    case Nil
    then show ?thesis by simp
  next
    case (Cons kv kvs')
    obtain k v where kv: "kv = (k, v)" by (cases kv)
    let ?rest = "concat (map ((#) TComma)
              (map (\<lambda>(k, ts). TString k # TColon # ts) (map (map_prod (\<lambda>k. k) tokens_of) kvs'))) @
            TRBrace # ts"
    have "run (Value, stk) (tokens_of (JObj kvs) @ ts) =
          run (Value, InObject [] k # stk) (tokens_of v @ ?rest)"
      by (simp add: Cons kv)
    also have "\<dots> = run (ObjectSep [(k, v)], stk) ?rest"
      using IH[of k v] by (simp add: Cons kv obj_put_first)
    also have "\<dots> = run (deliver (JObj ([(k, v)] @ kvs')) stk) ts"
    proof (rule run_object_rest)
      show "run (Value, stk) (tokens_of v @ ts) = run (deliver v stk) ts"
        if "(k, v) \<in> set kvs'" for k v stk ts
        using IH[of k v stk ts] that by (simp add: Cons)
      show "distinct (map fst ([(k, v)] @ kvs'))"
        using d by (simp add: Cons kv)
      show "\<not> is_array_index k" if "k \<in> fst ` set kvs'" for k
        using i[of k] that by (auto simp: Cons)
    qed
    finally show ?thesis by (simp add: Cons kv)
  qed
qed simp_all

lemma run_tokens_of_top: "plain v \<Longrightarrow> run (Value, []) (tokens_of v) = Some v"
  using run_tokens_of[of v "[]" "[]"] by simp

text \<open>The lexer on the pieces of the serialised text.\<close>

lemma lex_space: "lex (CHR '' '' # cs) = lex cs"
  by (simp add: lex.simps)

lemma lex_newline: "lex (CHR 0x0A # cs) = lex cs"
  by (simp add: lex.simps)

lemma lex_indent: "lex (indent n @ cs) = lex cs"
  by (induction n) (simp_all add: indent_def lex_space)

lemma lex_punctuation:
  "lex (CHR ''{'' # cs) = map_option ((#) TLBrace) (lex cs)"
  "lex (CHR ''}'' # cs) = map_option ((#) TRBrace) (lex cs)"
  "lex (CHR ''['' # cs) = map_option ((#) TLBracket) (lex cs)"
  "lex (CHR '']'' # cs) = map_option ((#) TRBracket) (lex cs)"
  "lex (CHR '':'' # cs) = map_option ((#) TColon) (lex cs)"
  "lex (CHR '','' # cs) = map_option ((#) TComma) (lex cs)"
  by (simp_all add: lex.simps)

lemma hex_value_hex_digit: "d < 16 \<Longrightarrow> hex_value (hex_digit d) = Some d"
  by (auto simp: hex_value_def hex_digit_def Let_def)

lemma hex_value_zero: "hex_value (CHR ''0'') = Some 0"
  by (simp add: hex_value_def)

lemma lex_escape_unicode:
  assumes "(of_char c :: nat) < 32"
  shows "lex_escape (CHR ''u'' # CHR ''0'' # CHR ''0'' # hex_digit (of_char c div 16) #
            hex_digit (of_char c mod 16) # cs) = Some (of_char c, cs)"
proof -
  have d: "(of_char c :: nat) div 16 < 16" "(of_char c :: nat) mod 16 < 16"
    using assms by simp_all
  have n: "(of_char c :: nat) div 16 * 16 + of_char c mod 16 = of_char c"
    by simp
  show ?thesis
    using assms
    by (simp add: lex_escape_def hex_value_zero hex_value_hex_digit[OF d(1)]
        hex_value_hex_digit[OF d(2)] n)
qed

lemma lex_string_quote_char:
  "lex_string (quote_char c @ cs) = prepend (of_char c) (lex_string cs)"
proof -
  consider (simple) "c = CHR 0x08 \<or> c = CHR 0x09 \<or> c = CHR 0x0A \<or> c = CHR 0x0C \<or>
      c = CHR 0x0D \<or> c = CHR 0x22 \<or> c = CHR 0x5C"
    | (control) "c \<noteq> CHR 0x08" "c \<noteq> CHR 0x09" "c \<noteq> CHR 0x0A" "c \<noteq> CHR 0x0C" "c \<noteq> CHR 0x0D"
        "c \<noteq> CHR 0x22" "c \<noteq> CHR 0x5C" "(of_char c :: nat) < 32"
    | (plain) "c \<noteq> CHR 0x08" "c \<noteq> CHR 0x09" "c \<noteq> CHR 0x0A" "c \<noteq> CHR 0x0C" "c \<noteq> CHR 0x0D"
        "c \<noteq> CHR 0x22" "c \<noteq> CHR 0x5C" "\<not> (of_char c :: nat) < 32"
    by blast
  then show ?thesis
  proof cases
    case simple
    then show ?thesis
      by (auto simp: quote_char_def lex_string.simps(2) lex_escape_def simple_escape_def)
  next
    case control
    then show ?thesis
      by (simp add: quote_char_def lex_string.simps(2) lex_escape_unicode)
  next
    case plain
    then show ?thesis
      by (simp add: quote_char_def lex_string.simps(2))
  qed
qed

lemma lex_string_quoted:
  "lex_string (concat (map quote_char s) @ CHR 0x22 # cs) = Some (units s, cs)"
proof (induction s)
  case Nil
  show ?case by (simp add: lex_string.simps(2) units_def)
next
  case (Cons c s)
  have "lex_string (concat (map quote_char (c # s)) @ CHR 0x22 # cs) =
        lex_string (quote_char c @ (concat (map quote_char s) @ CHR 0x22 # cs))"
    by simp
  also have "\<dots> = prepend (of_char c) (lex_string (concat (map quote_char s) @ CHR 0x22 # cs))"
    by (rule lex_string_quote_char)
  also have "\<dots> = Some (units (c # s), cs)"
    by (simp add: Cons.IH prepend_def units_def)
  finally show ?case .
qed

lemma lex_quote: "lex (quote s @ cs) = map_option ((#) (TString (units s))) (lex cs)"
  by (simp add: quote_def lex.simps lex_string_quoted)

lemma to_double_one: "to_double False 1 = Finite 1"
  by code_simp

lemma lex_number_one:
  "lex_number (CHR ''1'' # CHR '','' # cs) = Some (Finite 1, CHR '','' # cs)"
  by (simp add: lex_number_def lex_int_def lex_frac_def lex_exp_def is_digit_def
      digits_value_def digit_value_def scale10_def to_double_one)

lemma lex_one_comma:
  "lex (CHR ''1'' # CHR '','' # cs) =
   map_option (\<lambda>ts. TNumber (Finite 1) # TComma # ts) (lex cs)"
proof -
  have "lex (CHR ''1'' # CHR '','' # cs) =
        map_option ((#) (TNumber (Finite 1))) (lex (CHR '','' # cs))"
    by (subst lex.simps) (simp add: lex_number_one is_digit_def)
  then show ?thesis
    by (simp add: lex_punctuation option.map_comp comp_def)
qed

text \<open>The tokens of one property of a rule, and the lexer on the properties' lines.\<close>

definition member_tokens :: "string \<times> string \<Rightarrow> token list" where
  "member_tokens kv = [TString (units (fst kv)), TColon, TString (units (snd kv))]"

lemma lex_member:
  "lex (quote k @ '': '' @ quote v @ cs) = map_option ((@) (member_tokens (k, v))) (lex cs)"
  by (cases "lex cs")
    (simp_all add: lex_quote lex_punctuation lex_space member_tokens_def)

lemma lex_join_members:
  "lex (join_lines m (map (\<lambda>(k, v). quote k @ '': '' @ v)
          (map (\<lambda>(k, v). (k, quote v)) (kv # kvs))) @ cs) =
   map_option ((@) (sep_tokens (map member_tokens (kv # kvs)))) (lex cs)"
proof (induction kvs arbitrary: kv)
  case Nil
  obtain k v where kv: "kv = (k, v)" by (cases kv)
  show ?case using lex_member[of k v cs] by (simp add: kv)
next
  case (Cons kv' kvs)
  obtain k v where kv: "kv = (k, v)" by (cases kv)
  have "lex (join_lines m (map (\<lambda>(k, v). quote k @ '': '' @ v)
          (map (\<lambda>(k, v). (k, quote v)) (kv # kv' # kvs))) @ cs) =
        lex (quote k @ '': '' @ quote v @
             (CHR '','' # CHR 0x0A # indent m @
              join_lines m (map (\<lambda>(k, v). quote k @ '': '' @ v)
                (map (\<lambda>(k, v). (k, quote v)) (kv' # kvs))) @ cs))"
    by (simp add: kv)
  also have "\<dots> = map_option ((@) (member_tokens (k, v)))
        (map_option ((#) TComma)
          (map_option ((@) (sep_tokens (map member_tokens (kv' # kvs)))) (lex cs)))"
    by (simp only: lex_member lex_punctuation lex_newline lex_indent Cons.IH)
  also have "\<dots> = map_option ((@) (sep_tokens (map member_tokens (kv # kv' # kvs)))) (lex cs)"
    by (cases "lex cs") (simp_all add: kv)
  finally show ?case .
qed

lemma tokens_of_rule_json:
  "tokens_of (rule_json r) = TLBrace # sep_tokens (map member_tokens r) @ [TRBrace]"
proof -
  have "map (\<lambda>(k, ts). TString k # TColon # ts)
          (map (map_prod (\<lambda>k. k) tokens_of) (map (\<lambda>(k, v). (units k, JStr (units v))) r)) =
        map member_tokens r"
    by (induction r) (auto simp: member_tokens_def)
  then show ?thesis by (simp only: rule_json_def tokens_of.simps)
qed

lemma lex_stringify_rule:
  "lex (stringify_rule n r @ cs) = map_option ((@) (tokens_of (rule_json r))) (lex cs)"
proof (cases r)
  case Nil
  then show ?thesis
    by (cases "lex cs")
      (simp_all add: stringify_rule_def stringify_object_def rule_json_def lex_punctuation)
next
  case (Cons kv kvs)
  have "lex (stringify_rule n (kv # kvs) @ cs) =
        map_option ((#) TLBrace)
          (lex (join_lines (n + 2) (map (\<lambda>(k, v). quote k @ '': '' @ v)
                  (map (\<lambda>(k, v). (k, quote v)) (kv # kvs))) @
                (CHR 0x0A # indent n @ CHR ''}'' # cs)))"
    by (simp add: stringify_rule_def stringify_object_def lex_punctuation lex_newline lex_indent
        del: join_lines.simps list.map)
  also have "\<dots> = map_option ((#) TLBrace)
        (map_option ((@) (sep_tokens (map member_tokens (kv # kvs))))
          (map_option ((#) TRBrace) (lex cs)))"
    by (simp only: lex_join_members lex_newline lex_indent lex_punctuation)
  also have "\<dots> = map_option ((@) (tokens_of (rule_json (kv # kvs)))) (lex cs)"
    by (cases "lex cs") (simp_all add: tokens_of_rule_json del: sep_tokens.simps)
  finally show ?thesis by (simp only: Cons)
qed

lemma lex_join_rules:
  "lex (join_lines m (map (stringify_rule n) (r # rs)) @ cs) =
   map_option ((@) (sep_tokens (map tokens_of (map rule_json (r # rs))))) (lex cs)"
proof (induction rs arbitrary: r)
  case Nil
  show ?case by (simp add: lex_stringify_rule)
next
  case (Cons r' rs)
  have "lex (join_lines m (map (stringify_rule n) (r # r' # rs)) @ cs) =
        lex (stringify_rule n r @
             (CHR '','' # CHR 0x0A # indent m @
              join_lines m (map (stringify_rule n) (r' # rs)) @ cs))"
    by simp
  also have "\<dots> = map_option ((@) (tokens_of (rule_json r)))
        (map_option ((#) TComma)
          (map_option ((@) (sep_tokens (map tokens_of (map rule_json (r' # rs))))) (lex cs)))"
    by (simp only: lex_stringify_rule lex_punctuation lex_newline lex_indent Cons.IH)
  also have "\<dots> = map_option ((@) (sep_tokens (map tokens_of (map rule_json (r # r' # rs)))))
        (lex cs)"
    by (cases "lex cs") simp_all
  finally show ?case .
qed

lemma lex_stringify_array:
  "lex (stringify_array m (map (stringify_rule n) rules) @ cs) =
   map_option ((@) (tokens_of (JArr (map rule_json rules)))) (lex cs)"
proof (cases rules)
  case Nil
  then show ?thesis
    by (cases "lex cs") (simp_all add: stringify_array_def lex_punctuation)
next
  case (Cons r rs)
  have "lex (stringify_array m (map (stringify_rule n) (r # rs)) @ cs) =
        map_option ((#) TLBracket)
          (lex (join_lines (m + 2) (map (stringify_rule n) (r # rs)) @
                (CHR 0x0A # indent m @ CHR '']'' # cs)))"
    by (simp add: stringify_array_def lex_punctuation lex_newline lex_indent
        del: join_lines.simps list.map)
  also have "\<dots> = map_option ((#) TLBracket)
        (map_option ((@) (sep_tokens (map tokens_of (map rule_json (r # rs)))))
          (map_option ((#) TRBracket) (lex cs)))"
    by (simp only: lex_join_rules lex_newline lex_indent lex_punctuation)
  also have "\<dots> = map_option ((@) (tokens_of (JArr (map rule_json (r # rs))))) (lex cs)"
    by (cases "lex cs") simp_all
  finally show ?thesis by (simp only: Cons)
qed

definition payload_json :: "rule_object list \<Rightarrow> json" where
  "payload_json rules =
     JObj [(units ''version'', JNum (Finite 1)), (units ''rules'', JArr (map rule_json rules))]"

lemma indent_zero: "indent 0 = []"
  by (simp add: indent_def)

lemma lex_serializeRules: "lex (serializeRules rules) = Some (tokens_of (payload_json rules))"
proof -
  have "lex (serializeRules rules) =
        map_option (\<lambda>ts. TLBrace # TString (units ''version'') # TColon # TNumber (Finite 1) #
                          TComma # TString (units ''rules'') # TColon # ts)
          (lex (stringify_array 2 (map (stringify_rule 4) rules) @ [CHR 0x0A, CHR ''}'']))"
    by (simp add: serializeRules_def stringify_object_def lex_indent lex_punctuation lex_quote
        lex_space lex_newline lex_one_comma option.map_comp comp_def indent_zero)
  also have "\<dots> = Some (tokens_of (payload_json rules))"
    by (simp add: lex_stringify_array lex_newline lex_punctuation payload_json_def
        del: tokens_of.simps(5))
  finally show ?thesis .
qed

lemma units_inj: "inj units"
  unfolding units_def by (intro inj_mapI injI) simp

lemma rule_json_inj: "inj rule_json"
proof (rule injI)
  fix r r' :: rule_object
  assume "rule_json r = rule_json r'"
  then have "map (\<lambda>(k, v). (units k, JStr (units v))) r =
             map (\<lambda>(k, v). (units k, JStr (units v))) r'"
    by (simp add: rule_json_def)
  moreover have "inj (\<lambda>(k, v). (units k, JStr (units v)))"
    using units_inj by (auto simp: inj_def)
  ultimately show "r = r'"
    by (simp add: inj_map_eq_map)
qed

lemma is_ExpansionRule_plain:
  assumes "is_ExpansionRule r"
  shows "plain (rule_json r)"
proof -
  have names: "\<not> is_array_index (units ''id'')" "\<not> is_array_index (units ''command'')"
    "\<not> is_array_index (units ''replacementText'')" "\<not> is_array_index (units ''createdAt'')"
    "\<not> is_array_index (units ''updatedAt'')"
    by (simp_all add: is_array_index_def units_def)
  have keys: "map fst (map (\<lambda>(k, v). (units k, JStr (units v))) r) = map units (map fst r)"
    by (induction r) auto
  have "distinct (map units (map fst r))"
    using assms units_inj by (simp add: is_ExpansionRule_def distinct_map inj_on_def inj_def)
  moreover have "\<not> is_array_index k" if "k \<in> set (map units (map fst r))" for k
  proof -
    from that obtain n where "n \<in> set (map fst r)" "k = units n" by auto
    with assms names show ?thesis by (auto simp: is_ExpansionRule_def)
  qed
  moreover have "list_all (\<lambda>(k, p). p)
      (map (map_prod (\<lambda>k. k) plain) (map (\<lambda>(k, v). (units k, JStr (units v))) r))"
    by (induction r) auto
  ultimately show ?thesis
    unfolding rule_json_def plain.simps keys by (simp add: list_all_iff)
qed

lemma payload_json_plain:
  assumes "list_all is_ExpansionRule rules"
  shows "plain (payload_json rules)"
proof -
  have "list_all (\<lambda>p. p) (map plain (map rule_json rules))"
    using assms by (induction rules) (simp_all add: is_ExpansionRule_plain)
  then show ?thesis
    by (simp add: payload_json_def is_array_index_def units_def)
qed

lemma JSON_parse_serializeRules:
  "list_all is_ExpansionRule rules \<Longrightarrow>
   JSON_parse (serializeRules rules) = Some (payload_json rules)"
  by (simp add: JSON_parse_def lex_serializeRules run_tokens_of_top payload_json_plain)

lemma strict_equals_RULES_VERSION:
  "strict_equals v RULES_VERSION = (v = Some (JNum RULES_VERSION))"
  by (cases "(v, RULES_VERSION)" rule: strict_equals.cases)
    (auto simp: RULES_VERSION_def is_zero_def)

text \<open>
  C9. Serialising a list of rules and parsing the text gives the same list back, each
  rule with its properties in the order it had: the result is the list of the rules'
  JSON values, in order, and no two rules share a value.
\<close>

theorem parseRulesFile_serializeRules:
  "list_all is_ExpansionRule rules \<Longrightarrow>
   parseRulesFile (serializeRules rules) = Some (map rule_json rules) \<and> inj rule_json"
  by (simp add: parseRulesFile_def JSON_parse_serializeRules payload_json_def get_prop_def
      strict_equals_RULES_VERSION RULES_VERSION_def rule_json_inj units_def)

text \<open>
  The round trip at the two orders the store writes: a rule in the order of its first
  rule, whose text has a newline, a quote and a control character, and a rule in the
  order of \<open>upsertRule\<close>.
\<close>

theorem parseRulesFile_serializeRules_witness:
  "list_all is_ExpansionRule
     [[(''id'', ''1''), (''command'', ''.sig''),
       (''replacementText'', ''Best,'' @ [CHR 0x0A, CHR 0x22, CHR 0x01] @ ''Name''),
       (''createdAt'', ''t0''), (''updatedAt'', ''t1'')],
      [(''id'', ''2''), (''createdAt'', ''t2''), (''updatedAt'', ''t2''),
       (''command'', ''.a''), (''replacementText'', ''b'')]] \<and>
   parseRulesFile
     (serializeRules
        [[(''id'', ''1''), (''command'', ''.sig''),
          (''replacementText'', ''Best,'' @ [CHR 0x0A, CHR 0x22, CHR 0x01] @ ''Name''),
          (''createdAt'', ''t0''), (''updatedAt'', ''t1'')],
         [(''id'', ''2''), (''createdAt'', ''t2''), (''updatedAt'', ''t2''),
          (''command'', ''.a''), (''replacementText'', ''b'')]]) =
   Some [JObj [(units ''id'', JStr (units ''1'')), (units ''command'', JStr (units ''.sig'')),
               (units ''replacementText'',
                JStr (units (''Best,'' @ [CHR 0x0A, CHR 0x22, CHR 0x01] @ ''Name''))),
               (units ''createdAt'', JStr (units ''t0'')),
               (units ''updatedAt'', JStr (units ''t1''))],
         JObj [(units ''id'', JStr (units ''2'')), (units ''createdAt'', JStr (units ''t2'')),
               (units ''updatedAt'', JStr (units ''t2'')),
               (units ''command'', JStr (units ''.a'')),
               (units ''replacementText'', JStr (units ''b''))]]"
proof -
  have a: "list_all is_ExpansionRule
     [[(''id'', ''1''), (''command'', ''.sig''),
       (''replacementText'', ''Best,'' @ [CHR 0x0A, CHR 0x22, CHR 0x01] @ ''Name''),
       (''createdAt'', ''t0''), (''updatedAt'', ''t1'')],
      [(''id'', ''2''), (''createdAt'', ''t2''), (''updatedAt'', ''t2''),
       (''command'', ''.a''), (''replacementText'', ''b'')]]"
    by code_simp
  from parseRulesFile_serializeRules[OF a] show ?thesis
    using a by (simp add: rule_json_def)
qed

text \<open>
  \<open>JSON.parse\<close> at texts with a number literal that is no double, a negative zero, an escape above
  \<open>00FF\<close>, a key written twice and keys that are array indices.
\<close>

lemma JSON_parse_examples:
  \<open>JSON_parse ''1.0000000000000001'' = Some (JNum (Finite 1))\<close>
  \<open>JSON_parse ''-0'' = Some (JNum NegativeZero)\<close>
  \<open>JSON_parse ''0.1'' = Some (JNum (Finite (3602879701896397 / 36028797018963968)))\<close>
  \<open>JSON_parse (''"'' @ [CHR 0x5C] @ ''u20ac"'') = Some (JStr [8364])\<close>
  \<open>JSON_parse ''{"a":1,"b":2,"a":3}'' =
     Some (JObj [(units ''a'', JNum (Finite 3)), (units ''b'', JNum (Finite 2))])\<close>
  \<open>JSON_parse ''{"b":true,"10":null,"9":false}'' =
     Some (JObj [(units ''9'', JBool False), (units ''10'', JNull), (units ''b'', JBool True)])\<close>
  \<open>JSON_parse ''9007199254740993'' = Some (JNum (Finite 9007199254740992))\<close>
  \<open>JSON_parse ''01'' = None\<close>
  by code_simp+

lemma parseRulesFile_examples:
  \<open>parseRulesFile ''{"version":1.0000000000000001,"rules":[]}'' = Some []\<close>
  \<open>parseRulesFile (''{"version":1,"rules":[{"command":"'' @ [CHR 0x5C] @ ''u20ac"}]}'') =
     Some [JObj [(units ''command'', JStr [8364])]]\<close>
  \<open>parseRulesFile ''{"version":2,"version":1,"rules":[]}'' = Some []\<close>
  \<open>parseRulesFile ''{"version":1.0000000000000002,"rules":[]}'' = None\<close>
  \<open>loadRulesFromStorage [STORAGE_KEY \<mapsto> ''{"version":1.0000000000000001,"rules":[]}''] =
     Some []\<close>
  by code_simp+

text \<open>
  C5. \<open>parseRulesFile\<close> and \<open>loadRulesFromStorage\<close> give \<open>null\<close> when the text is not
  JSON, when the version of the parsed payload is not the number 1, and when its rules
  are not an array. When they give a list, the text parsed to a payload of version 1
  whose \<open>rules\<close> array is that very list: nothing is guessed or repaired.
\<close>

theorem rules_file_gate:
  "(JSON_parse text = None \<longrightarrow> parseRulesFile text = None) \<and>
   (\<forall>parsed. JSON_parse text = Some parsed \<and>
      get_prop parsed ''version'' \<noteq> Some (JNum RULES_VERSION) \<longrightarrow> parseRulesFile text = None) \<and>
   (\<forall>parsed. JSON_parse text = Some parsed \<and> \<not> isArray (get_prop parsed ''rules'') \<longrightarrow>
      parseRulesFile text = None) \<and>
   (\<forall>rules. parseRulesFile text = Some rules \<longrightarrow>
      (\<exists>parsed. JSON_parse text = Some parsed \<and>
         get_prop parsed ''version'' = Some (JNum RULES_VERSION) \<and>
         get_prop parsed ''rules'' = Some (JArr rules))) \<and>
   (localStorage STORAGE_KEY = Some text \<longrightarrow>
      (JSON_parse text = None \<longrightarrow> loadRulesFromStorage localStorage = None) \<and>
      (\<forall>parsed. JSON_parse text = Some parsed \<and>
         get_prop parsed ''version'' \<noteq> Some (JNum RULES_VERSION) \<longrightarrow>
         loadRulesFromStorage localStorage = None) \<and>
      (\<forall>parsed. JSON_parse text = Some parsed \<and> \<not> isArray (get_prop parsed ''rules'') \<longrightarrow>
         loadRulesFromStorage localStorage = None) \<and>
      (\<forall>rules. loadRulesFromStorage localStorage = Some rules \<longrightarrow>
         (\<exists>parsed. JSON_parse text = Some parsed \<and>
            get_prop parsed ''version'' = Some (JNum RULES_VERSION) \<and>
            get_prop parsed ''rules'' = Some (JArr rules))))"
proof -
  have arr: "isArray p \<Longrightarrow> \<exists>rs. p = Some (JArr rs)" for p
    by (cases p rule: isArray.cases) simp_all
  have p: "parseRulesFile text = None" if "JSON_parse text = None"
    using that by (simp add: parseRulesFile_def strict_equals_RULES_VERSION)
  have pv: "parseRulesFile text = None"
    if "JSON_parse text = Some parsed" "get_prop parsed ''version'' \<noteq> Some (JNum RULES_VERSION)"
    for parsed using that by (simp add: parseRulesFile_def strict_equals_RULES_VERSION)
  have pa: "parseRulesFile text = None"
    if "JSON_parse text = Some parsed" "\<not> isArray (get_prop parsed ''rules'')"
    for parsed using that by (simp add: parseRulesFile_def strict_equals_RULES_VERSION)
  have ps: "\<exists>parsed. JSON_parse text = Some parsed \<and>
         get_prop parsed ''version'' = Some (JNum RULES_VERSION) \<and>
         get_prop parsed ''rules'' = Some (JArr rules)"
    if "parseRulesFile text = Some rules" for rules
    using that
    by (auto simp: parseRulesFile_def strict_equals_RULES_VERSION split: option.splits if_splits json.splits dest: arr)
  have l: "loadRulesFromStorage localStorage = None"
    if "localStorage STORAGE_KEY = Some text" "JSON_parse text = None"
    using that by (simp add: loadRulesFromStorage_def strict_equals_RULES_VERSION)
  have lv: "loadRulesFromStorage localStorage = None"
    if "localStorage STORAGE_KEY = Some text" "JSON_parse text = Some parsed"
      "get_prop parsed ''version'' \<noteq> Some (JNum RULES_VERSION)"
    for parsed using that by (simp add: loadRulesFromStorage_def strict_equals_RULES_VERSION)
  have la: "loadRulesFromStorage localStorage = None"
    if "localStorage STORAGE_KEY = Some text" "JSON_parse text = Some parsed"
      "\<not> isArray (get_prop parsed ''rules'')"
    for parsed using that by (simp add: loadRulesFromStorage_def strict_equals_RULES_VERSION)
  have ls: "\<exists>parsed. JSON_parse text = Some parsed \<and>
         get_prop parsed ''version'' = Some (JNum RULES_VERSION) \<and>
         get_prop parsed ''rules'' = Some (JArr rules)"
    if "localStorage STORAGE_KEY = Some text" "loadRulesFromStorage localStorage = Some rules"
    for rules
    using that
    by (auto simp: loadRulesFromStorage_def strict_equals_RULES_VERSION split: option.splits if_splits json.splits dest: arr)
  show ?thesis
    using p pv pa ps l lv la ls by blast
qed

text \<open>
  The gate at four texts: one that is not JSON, one of version 2, one whose rules are an
  object, one stored under the key with the version as a string; and a text that passes,
  its version being a literal that rounds to the double 1.
\<close>

theorem rules_file_gate_witness:
  \<open>parseRulesFile ''{"version":1,'' = None \<and>
   parseRulesFile ''{"version":2,"rules":[]}'' = None \<and>
   parseRulesFile ''{"version":1,"rules":{}}'' = None \<and>
   loadRulesFromStorage [STORAGE_KEY \<mapsto> ''{"version":"1","rules":[]}''] = None \<and>
   (\<exists>parsed. JSON_parse ''{"version":1.0000000000000001,"rules":[true]}'' = Some parsed \<and>
      get_prop parsed ''version'' = Some (JNum RULES_VERSION) \<and>
      get_prop parsed ''rules'' = Some (JArr [JBool True]))\<close>
proof -
  have a: \<open>JSON_parse ''{"version":1,'' = None\<close>
    by code_simp
  have b: \<open>JSON_parse ''{"version":2,"rules":[]}'' =
        Some (JObj [(units ''version'', JNum (Finite 2)), (units ''rules'', JArr [])]) \<and>
      get_prop (JObj [(units ''version'', JNum (Finite 2)), (units ''rules'', JArr [])])
        ''version'' \<noteq> Some (JNum RULES_VERSION)\<close>
    by code_simp
  have c: \<open>JSON_parse ''{"version":1,"rules":{}}'' =
        Some (JObj [(units ''version'', JNum (Finite 1)), (units ''rules'', JObj [])]) \<and>
      \<not> isArray (get_prop (JObj [(units ''version'', JNum (Finite 1)),
                                 (units ''rules'', JObj [])]) ''rules'')\<close>
    by code_simp
  have d: \<open>JSON_parse ''{"version":"1","rules":[]}'' =
        Some (JObj [(units ''version'', JStr (units ''1'')), (units ''rules'', JArr [])]) \<and>
      get_prop (JObj [(units ''version'', JStr (units ''1'')), (units ''rules'', JArr [])])
        ''version'' \<noteq> Some (JNum RULES_VERSION)\<close>
    by code_simp
  have k: \<open>[STORAGE_KEY \<mapsto> ''{"version":"1","rules":[]}''] STORAGE_KEY =
      Some ''{"version":"1","rules":[]}''\<close>
    by simp
  have e: \<open>parseRulesFile ''{"version":1.0000000000000001,"rules":[true]}'' =
      Some [JBool True]\<close>
    by code_simp
  have 1: \<open>parseRulesFile ''{"version":1,'' = None\<close>
    by (rule rules_file_gate[THEN conjunct1, THEN mp]) (rule a)
  have 2: \<open>parseRulesFile ''{"version":2,"rules":[]}'' = None\<close>
    by (rule rules_file_gate[THEN conjunct2, THEN conjunct1, THEN spec, THEN mp]) (rule b)
  have 3: \<open>parseRulesFile ''{"version":1,"rules":{}}'' = None\<close>
    by (rule rules_file_gate[THEN conjunct2, THEN conjunct2, THEN conjunct1, THEN spec,
          THEN mp]) (rule c)
  have 4: \<open>loadRulesFromStorage [STORAGE_KEY \<mapsto> ''{"version":"1","rules":[]}''] = None\<close>
    by (rule rules_file_gate[THEN conjunct2, THEN conjunct2, THEN conjunct2, THEN conjunct2,
          THEN mp, THEN conjunct2, THEN conjunct1, THEN spec, THEN mp]) (rule k, rule d)
  have 5: \<open>\<exists>parsed. JSON_parse ''{"version":1.0000000000000001,"rules":[true]}'' = Some parsed \<and>
      get_prop parsed ''version'' = Some (JNum RULES_VERSION) \<and>
      get_prop parsed ''rules'' = Some (JArr [JBool True])\<close>
    by (rule rules_file_gate[THEN conjunct2, THEN conjunct2, THEN conjunct2, THEN conjunct1,
          THEN spec, THEN mp]) (rule e)
  show ?thesis
    by (intro conjI) (rule 1, rule 2, rule 3, rule 4, rule 5)
qed

section \<open>The expansion engine and its synthetic-input guard\<close>

text \<open>
  Modelled from the spec: the expansion engine (the Keystroke Monitor, the Match Buffer,
  the Injector and the SyntheticInputGuard of its sections 3 and 4). The engine is
  Rust code outside the TypeScript front end, so the definitions of this section follow
  the spec's words.

  The monitor emits normalised events. The engine holds the rule table (most recently
  updated rule first), the characters typed since the last delimiter or reset, the guard
  counter, the pause flag, and the injections made so far, each with the number of
  characters deleted and the text synthesised.
\<close>

datatype input_event = Char char | Delimiter char | Backspace | CursorMove | FocusChange

record engine =
  rules :: "(string \<times> string) list"
  delimiters :: "char list"
  buffer :: string
  guard :: nat
  paused :: bool
  injected :: "(nat \<times> string) list"

definition sentinel :: char where
  "sentinel = CHR ''.''"

definition max_command_length :: nat where
  "max_command_length = 50"

text \<open>
  Modelled from the spec: the Match Buffer on a printable character. Idle and a sentinel
  start accumulating; accumulating and a valid character under the maximal length
  append; a character outside the class or past the length resets.
\<close>

definition buffer_char :: "string \<Rightarrow> char \<Rightarrow> string" where
  "buffer_char buf c =
     (if buf = [] then (if c = sentinel then [c] else [])
      else if is_word_char c \<and> length buf < max_command_length then buf @ [c]
      else [])"

text \<open>
  Modelled from the spec: the lookup on a delimiter, exact equality after lowering the
  case, the most recently updated rule first.
\<close>

definition match_rule :: "(string \<times> string) list \<Rightarrow> string \<Rightarrow> (string \<times> string) option" where
  "match_rule rs buf =
     (if buf = [] then None
      else find (\<lambda>(cmd, replacement). toLowerCase cmd = toLowerCase buf) rs)"

text \<open>
  Modelled from the spec: what the injection puts into the input stream, one backspace
  for each typed character and then the replacement, each of its characters seen by the
  monitor as a delimiter or a printable character.
\<close>

definition synthetic_events :: "char list \<Rightarrow> nat \<Rightarrow> string \<Rightarrow> input_event list" where
  "synthetic_events ds typed replacement =
     replicate typed Backspace @
     map (\<lambda>c. if c \<in> set ds then Delimiter c else Char c) replacement"

text \<open>Events observed one after the other; \<open>None\<close> when the observer gives no state.\<close>

fun feed :: "(engine \<Rightarrow> input_event \<Rightarrow> engine option) \<Rightarrow> engine \<Rightarrow> input_event list \<Rightarrow> engine option" where
  "feed observe e [] = Some e"
| "feed observe e (ev # evs) =
     (case observe e ev of None \<Rightarrow> None | Some e' \<Rightarrow> feed observe e' evs)"

text \<open>
  Modelled from the spec: the Injector, one logical operation. It raises the guard, the
  synthetic events pass the monitor (\<open>observe\<close>), it lowers the guard and records the
  injection.
\<close>

definition inject ::
  "(engine \<Rightarrow> input_event \<Rightarrow> engine option) \<Rightarrow> engine \<Rightarrow> nat \<Rightarrow> string \<Rightarrow> engine option" where
  "inject observe e typed replacement =
     (case feed observe (e\<lparr>guard := guard e + 1\<rparr>)
             (synthetic_events (delimiters e) typed replacement) of
        None \<Rightarrow> None
      | Some e' \<Rightarrow>
          Some (e'\<lparr>guard := guard e' - 1, injected := injected e' @ [(typed, replacement)]\<rparr>))"

text \<open>
  Modelled from the spec: the monitor's handler of one event. The pause check comes
  first, then the guard check, before any change of the buffer; only then the Match
  Buffer moves, and a delimiter after a command starts the injection. The synthetic
  events of an injection come back to this same handler, so it is defined by the depth
  of that re-entrance: \<open>None\<close> means the depth \<open>n\<close> did not suffice.
\<close>

primrec on_event :: "nat \<Rightarrow> engine \<Rightarrow> input_event \<Rightarrow> engine option" where
  "on_event 0 = (\<lambda>e ev. None)"
| "on_event (Suc n) =
     (\<lambda>e ev.
        if paused e then Some e
        else if guard e > 0 then Some e
        else (case ev of
                Char c \<Rightarrow> Some (e\<lparr>buffer := buffer_char (buffer e) c\<rparr>)
              | Delimiter d \<Rightarrow>
                  (case match_rule (rules e) (buffer e) of
                     None \<Rightarrow> Some (e\<lparr>buffer := []\<rparr>)
                   | Some (cmd, replacement) \<Rightarrow>
                       inject (on_event n) (e\<lparr>buffer := []\<rparr>) (length (buffer e)) replacement)
              | Backspace \<Rightarrow> Some (e\<lparr>buffer := butlast (buffer e)\<rparr>)
              | CursorMove \<Rightarrow> Some (e\<lparr>buffer := []\<rparr>)
              | FocusChange \<Rightarrow> Some (e\<lparr>buffer := []\<rparr>)))"

subsection \<open>Theorems about the guard\<close>

lemma on_event_raised: "guard e > 0 \<Longrightarrow> on_event (Suc n) e ev = Some e"
  by simp

lemma feed_raised: "guard e > 0 \<Longrightarrow> feed (on_event (Suc n)) e evs = Some e"
  by (induction evs) (simp_all del: on_event.simps add: on_event_raised)

text \<open>
  C2. While the guard is raised, every event the monitor observes leaves the engine as
  it is: the buffer does not move and nothing is matched or injected. So a delimiter
  typed after a command gives exactly one injection, whatever the replacement text is,
  also when that text holds a command followed by a delimiter: the events of the
  injection pass the monitor under the raised guard, and the guard is lowered after them.
\<close>

theorem guard_blocks_secondary_expansion:
  "(guard e > 0 \<longrightarrow> feed (on_event (Suc n)) e evs = Some e) \<and>
   (\<not> paused e \<and> guard e = 0 \<and>
    match_rule (rules e) (buffer e) = Some (cmd, replacement) \<longrightarrow>
      on_event (Suc (Suc n)) e (Delimiter d) =
        Some (e\<lparr>buffer := [],
                injected := injected e @ [(length (buffer e), replacement)]\<rparr>))"
proof (intro conjI impI)
  assume "guard e > 0"
  then show "feed (on_event (Suc n)) e evs = Some e" by (rule feed_raised)
next
  assume a: "\<not> paused e \<and> guard e = 0 \<and>
    match_rule (rules e) (buffer e) = Some (cmd, replacement)"
  let ?raised = "e\<lparr>buffer := [], guard := Suc 0\<rparr>"
  have "feed (on_event (Suc n)) ?raised
          (synthetic_events (delimiters e) (length (buffer e)) replacement) = Some ?raised"
    by (rule feed_raised) simp
  then have "inject (on_event (Suc n)) (e\<lparr>buffer := []\<rparr>) (length (buffer e)) replacement =
        Some (e\<lparr>buffer := [],
                injected := injected e @ [(length (buffer e), replacement)]\<rparr>)"
    using a by (simp add: inject_def del: on_event.simps)
  with a show "on_event (Suc (Suc n)) e (Delimiter d) =
        Some (e\<lparr>buffer := [],
                injected := injected e @ [(length (buffer e), replacement)]\<rparr>)"
    by (subst on_event.simps(2)) (simp del: on_event.simps)
qed

text \<open>
  The rule \<open>.loop\<close> expands to a text that begins with \<open>.loop\<close> and a space: typing
  the command and a space injects once, and the injected events change nothing.
\<close>

theorem guard_blocks_secondary_expansion_witness:
  "feed (on_event 1)
     \<lparr>rules = [(''.loop'', ''.loop again'')], delimiters = '' ,;'', buffer = [],
      guard = 1, paused = False, injected = []\<rparr>
     (synthetic_events '' ,;'' 5 ''.loop again'') =
   Some \<lparr>rules = [(''.loop'', ''.loop again'')], delimiters = '' ,;'', buffer = [],
         guard = 1, paused = False, injected = []\<rparr> \<and>
   on_event 2
     \<lparr>rules = [(''.loop'', ''.loop again'')], delimiters = '' ,;'', buffer = ''.Loop'',
      guard = 0, paused = False, injected = []\<rparr>
     (Delimiter (CHR '' '')) =
   Some \<lparr>rules = [(''.loop'', ''.loop again'')], delimiters = '' ,;'', buffer = [],
         guard = 0, paused = False, injected = [(5, ''.loop again'')]\<rparr>"
proof -
  let ?raised = "\<lparr>rules = [(''.loop'', ''.loop again'')], delimiters = '' ,;'', buffer = [],
      guard = 1, paused = False, injected = []\<rparr>"
  let ?typed = "\<lparr>rules = [(''.loop'', ''.loop again'')], delimiters = '' ,;'',
      buffer = ''.Loop'', guard = 0, paused = False, injected = []\<rparr>"
  have m: "match_rule [(''.loop'', ''.loop again'')] ''.Loop'' =
      Some (''.loop'', ''.loop again'')"
    by code_simp
  have 1: "feed (on_event (Suc 0)) ?raised (synthetic_events '' ,;'' 5 ''.loop again'') =
        Some ?raised"
    by (rule guard_blocks_secondary_expansion[THEN conjunct1, THEN mp]) simp
  have 2: "on_event (Suc (Suc 0)) ?typed (Delimiter (CHR '' '')) =
        Some (?typed\<lparr>buffer := [],
                injected := injected ?typed @ [(length (buffer ?typed), ''.loop again'')]\<rparr>)"
    by (rule guard_blocks_secondary_expansion[where cmd = "''.loop''", THEN conjunct2, THEN mp])
      (simp add: m)
  from 1 2 show ?thesis
    by (simp del: on_event.simps add: numeral_2_eq_2)
qed

end
